theory Spec2Isabelle
  imports Complex_Main "HOL-Library.Sublist"
begin

section \<open>Python values and exceptions\<close>

text \<open>
  The exceptions that \<^verbatim>\<open>src/utils.py\<close> raises itself, or lets escape from the
  library calls it makes. Each carries its message.
\<close>

datatype error =
    FileNotFoundError string
  | ValueError string
  | TypeError string
  | OSError string
  | RuntimeError string
  | ArgumentTypeError string
  | OverflowError string

text \<open>
  A Python float is a finite value, an infinity or a NaN. Every finite double is a
  rational number; comparisons between floats are exact, so they are the comparisons
  of these rationals. A NaN compares false with everything.
\<close>

datatype pyfloat = Finite rat | PosInf | NegInf | NaN

fun float_lt :: "pyfloat \<Rightarrow> pyfloat \<Rightarrow> bool" where
  "float_lt NaN _ = False"
| "float_lt _ NaN = False"
| "float_lt PosInf _ = False"
| "float_lt _ NegInf = False"
| "float_lt NegInf _ = True"
| "float_lt _ PosInf = True"
| "float_lt (Finite a) (Finite b) = (a < b)"

fun float_ge :: "pyfloat \<Rightarrow> pyfloat \<Rightarrow> bool" where
  "float_ge NaN _ = False"
| "float_ge _ NaN = False"
| "float_ge PosInf _ = True"
| "float_ge _ NegInf = True"
| "float_ge NegInf _ = False"
| "float_ge _ PosInf = False"
| "float_ge (Finite a) (Finite b) = (a \<ge> b)"

text \<open>
  What \<^verbatim>\<open>json.load\<close> returns: \<^verbatim>\<open>None\<close>, a bool, an int, a float, a str, a list
  or a dict with string keys (in insertion order).
\<close>

datatype pyval =
    PNone
  | PBool bool
  | PInt int
  | PFloat pyfloat
  | PStr string
  | PList "pyval list"
  | PDict "(string \<times> pyval) list"

section \<open>The request-time-limit validator\<close>

text \<open>
  \<^verbatim>\<open>check_positive_float(value)\<close>. The argument parser hands the option's text to
  the validator. The builtin \<^verbatim>\<open>float\<close> is a parameter: it gives the float a text
  denotes, or nothing where Python raises \<^verbatim>\<open>ValueError\<close>. The literal \<^verbatim>\<open>1\<close> of the
  comparison \<^verbatim>\<open>fvalue < 1\<close> is the float one.
\<close>

definition check_positive_float ::
    "(string \<Rightarrow> pyfloat option) \<Rightarrow> string \<Rightarrow> error + pyfloat" where
  "check_positive_float float_of value =
     (case float_of value of
        None \<Rightarrow> Inl (ValueError (''could not convert string to float: '' @ value))
      | Some fvalue \<Rightarrow>
          if float_lt fvalue (Finite 1)
          then Inl (ArgumentTypeError
                 (''--request-time-limit value should be at least 1, now is '' @ value))
          else Inr fvalue)"

section \<open>The configuration loader\<close>

text \<open>
  What \<^verbatim>\<open>open(config_path, "r")\<close> finds at a path: nothing, something it may not
  open as a file (a directory, a file without read permission), or a text.
\<close>

datatype file_state = Absent | Inaccessible | Content string

definition required_fields :: "string list" where
  "required_fields =
     [''boards'', ''exclude_boards'', ''request_time_limit'',
      ''output_path'', ''save_log'', ''clean_log'']"

text \<open>Python's \<^verbatim>\<open>sep.join(xs)\<close> on strings.\<close>

fun join :: "string \<Rightarrow> string list \<Rightarrow> string" where
  "join sep [] = []"
| "join sep [x] = x"
| "join sep (x # y # ys) = x @ sep @ join sep (y # ys)"

text \<open>
  \<^verbatim>\<open>field in config\<close> for a string \<^verbatim>\<open>field\<close>: key membership in a dict, element
  membership in a list (a str equals only an equal str), substring test in a str,
  and \<^verbatim>\<open>TypeError\<close> for a value that is no container.
\<close>

fun py_in :: "string \<Rightarrow> pyval \<Rightarrow> error + bool" where
  "py_in field (PDict kvs) = Inr (field \<in> set (map fst kvs))"
| "py_in field (PList xs) = Inr (PStr field \<in> set xs)"
| "py_in field (PStr s) = Inr (sublist field s)"
| "py_in field PNone = Inl (TypeError ''argument of type 'NoneType' is not iterable'')"
| "py_in field (PBool b) = Inl (TypeError ''argument of type 'bool' is not iterable'')"
| "py_in field (PInt i) = Inl (TypeError ''argument of type 'int' is not iterable'')"
| "py_in field (PFloat f) = Inl (TypeError ''argument of type 'float' is not iterable'')"

text \<open>
  The comprehension \<^verbatim>\<open>[field for field in required_fields if field not in config]\<close>:
  it stops at the first membership test that raises.
\<close>

fun missing_fields :: "string list \<Rightarrow> pyval \<Rightarrow> error + string list" where
  "missing_fields [] config = Inr []"
| "missing_fields (field # fields) config =
     (case py_in field config of
        Inl e \<Rightarrow> Inl e
      | Inr present \<Rightarrow>
          (case missing_fields fields config of
             Inl e \<Rightarrow> Inl e
           | Inr ms \<Rightarrow> Inr (if present then ms else field # ms)))"

text \<open>
  \<^verbatim>\<open>load_and_validate_config(config_path)\<close>. The file system is a function from
  paths to what is found there; \<^verbatim>\<open>json.load\<close> is a parameter, giving the parsed value
  of a text or nothing where it raises \<^verbatim>\<open>json.JSONDecodeError\<close>.
\<close>

definition load_and_validate_config ::
    "(string \<Rightarrow> file_state) \<Rightarrow> (string \<Rightarrow> pyval option) \<Rightarrow> string \<Rightarrow> error + pyval" where
  "load_and_validate_config fs json_load config_path =
     (case fs config_path of
        Absent \<Rightarrow> Inl (FileNotFoundError (''Config file not found at '' @ config_path))
      | Inaccessible \<Rightarrow> Inl (OSError config_path)
      | Content text \<Rightarrow>
          (case json_load text of
             None \<Rightarrow> Inl (ValueError (''Invalid JSON format in '' @ config_path))
           | Some config \<Rightarrow>
               (case missing_fields required_fields config of
                  Inl e \<Rightarrow> Inl e
                | Inr ms \<Rightarrow>
                    if ms \<noteq> []
                    then Inl (ValueError
                           (''Missing required fields in config: '' @ join '', '' ms))
                    else Inr config)))"

text \<open>
  Reading a message back, as a caller would: Python's \<^verbatim>\<open>s.split(", ")\<close> gives the
  parts of a text between the occurrences of a comma followed by a space, and the
  names a "missing fields" message lists are the parts of what follows its fixed
  beginning.
\<close>

fun split_comma_space :: "string \<Rightarrow> string \<Rightarrow> string list" where
  "split_comma_space acc [] = [acc]"
| "split_comma_space acc [x] = [acc @ [x]]"
| "split_comma_space acc (x # y # ys) =
     (if x = CHR '','' \<and> y = CHR '' '' then acc # split_comma_space [] ys
      else split_comma_space (acc @ [x]) (y # ys))"

definition listed_names :: "string \<Rightarrow> string list" where
  "listed_names message =
     split_comma_space [] (drop (length ''Missing required fields in config: '') message)"

text \<open>Helpers for concrete runs: a disk with one file, and a table for a parser.\<close>

definition one_file :: "string \<Rightarrow> string \<Rightarrow> string \<Rightarrow> file_state" where
  "one_file path text p = (if p = path then Content text else Absent)"

definition parses_to :: "string \<Rightarrow> pyval \<Rightarrow> string \<Rightarrow> pyval option" where
  "parses_to text v s = (if s = text then Some v else None)"

section \<open>Dates and times\<close>

text \<open>
  A naive \<^verbatim>\<open>datetime\<close>, as \<^verbatim>\<open>datetime.utcnow()\<close> and \<^verbatim>\<open>datetime.strptime\<close>
  return it: the fields of the proleptic Gregorian calendar and a time of day.
\<close>

record datetime =
  year :: nat
  month :: nat
  day :: nat
  hour :: nat
  minute :: nat
  second :: nat
  microsecond :: nat

text \<open>The calendar helpers of Python's \<^verbatim>\<open>datetime\<close> module; index 0 of the tables is a placeholder.\<close>

definition DAYS_IN_MONTH :: "nat list" where
  "DAYS_IN_MONTH = [0, 31, 28, 31, 30, 31, 30, 31, 31, 30, 31, 30, 31]"

definition DAYS_BEFORE_MONTH :: "nat list" where
  "DAYS_BEFORE_MONTH = [0, 0, 31, 59, 90, 120, 151, 181, 212, 243, 273, 304, 334]"

definition MAXORDINAL :: nat where
  "MAXORDINAL = 3652059"

definition is_leap :: "nat \<Rightarrow> bool" where
  "is_leap y = (y mod 4 = 0 \<and> (y mod 100 \<noteq> 0 \<or> y mod 400 = 0))"

definition days_before_year :: "nat \<Rightarrow> nat" where
  "days_before_year y = (let p = y - 1 in p * 365 + p div 4 - p div 100 + p div 400)"

definition days_in_month :: "nat \<Rightarrow> nat \<Rightarrow> nat" where
  "days_in_month y m = (if m = 2 \<and> is_leap y then 29 else DAYS_IN_MONTH ! m)"

definition days_before_month :: "nat \<Rightarrow> nat \<Rightarrow> nat" where
  "days_before_month y m = DAYS_BEFORE_MONTH ! m + (if 2 < m \<and> is_leap y then 1 else 0)"

definition ymd2ord :: "nat \<Rightarrow> nat \<Rightarrow> nat \<Rightarrow> nat" where
  "ymd2ord y m d = days_before_year y + days_before_month y m + d"

text \<open>
  The month and the day of the month of the day with index \<open>n\<close> (from 0) in its year,
  as \<^verbatim>\<open>_ord2ymd\<close> finds them: an estimate of the month that is either exact or too
  large by one.
\<close>

definition month_and_day :: "bool \<Rightarrow> nat \<Rightarrow> nat \<times> nat" where
  "month_and_day leapyear n =
     (let m = (n + 50) div 32;
          preceding = DAYS_BEFORE_MONTH ! m + (if 2 < m \<and> leapyear then 1 else 0)
      in if n < preceding
         then (m - 1,
               n - (preceding - (DAYS_IN_MONTH ! (m - 1)
                                   + (if m - 1 = 2 \<and> leapyear then 1 else 0))) + 1)
         else (m, n - preceding + 1))"

definition ord2ymd :: "nat \<Rightarrow> nat \<times> nat \<times> nat" where
  "ord2ymd ordinal =
     (let n = ordinal - 1;
          n400 = n div 146097; r400 = n mod 146097;
          n100 = r400 div 36524; r100 = r400 mod 36524;
          n4 = r100 div 1461; r4 = r100 mod 1461;
          n1 = r4 div 365; r1 = r4 mod 365;
          y = n400 * 400 + 1 + n100 * 100 + n4 * 4 + n1
      in if n1 = 4 \<or> n100 = 4 then (y - 1, 12, 31)
         else (case month_and_day (n1 = 3 \<and> (n4 \<noteq> 24 \<or> n100 = 3)) r1 of
                 (m, d) \<Rightarrow> (y, m, d)))"

text \<open>The range checks of the \<^verbatim>\<open>datetime\<close> constructor.\<close>

definition valid_datetime :: "datetime \<Rightarrow> bool" where
  "valid_datetime t =
     (1 \<le> year t \<and> year t \<le> 9999 \<and> 1 \<le> month t \<and> month t \<le> 12
      \<and> 1 \<le> day t \<and> day t \<le> days_in_month (year t) (month t)
      \<and> hour t < 24 \<and> minute t < 60 \<and> second t < 60 \<and> microsecond t < 1000000)"

definition toordinal :: "datetime \<Rightarrow> nat" where
  "toordinal t = ymd2ord (year t) (month t) (day t)"

text \<open>
  Comparison of two datetimes is the comparison of their field tuples, first field
  first.
\<close>

fun tuple_lt :: "nat list \<Rightarrow> nat list \<Rightarrow> bool" where
  "tuple_lt [] [] = False"
| "tuple_lt [] (y # ys) = True"
| "tuple_lt (x # xs) [] = False"
| "tuple_lt (x # xs) (y # ys) = (x < y \<or> (x = y \<and> tuple_lt xs ys))"

definition dt_fields :: "datetime \<Rightarrow> nat list" where
  "dt_fields t = [year t, month t, day t, hour t, minute t, second t, microsecond t]"

definition dt_lt :: "datetime \<Rightarrow> datetime \<Rightarrow> bool" where
  "dt_lt a b = tuple_lt (dt_fields a) (dt_fields b)"

text \<open>
  \<^verbatim>\<open>timedelta(days=n)\<close> accepts at most 999999999 days either way.
  \<^verbatim>\<open>now - timedelta(days=n)\<close> moves the ordinal of the date and keeps the time of
  day; it raises \<^verbatim>\<open>OverflowError\<close> when the date leaves the years 1 to 9999.
\<close>

definition timedelta_days :: "int \<Rightarrow> error + int" where
  "timedelta_days n =
     (if \<bar>n\<bar> \<le> 999999999 then Inr n
      else Inl (OverflowError ''days out of range for timedelta''))"

definition dt_sub_days :: "datetime \<Rightarrow> int \<Rightarrow> error + datetime" where
  "dt_sub_days t n =
     (let ordinal = int (toordinal t) - n
      in if 0 < ordinal \<and> ordinal \<le> int MAXORDINAL
         then (case ord2ymd (nat ordinal) of
                 (y, m, d) \<Rightarrow> Inr (t\<lparr>year := y, month := m, day := d\<rparr>))
         else Inl (OverflowError ''date value out of range''))"

subsection \<open>Formatting and parsing with \<^verbatim>\<open>%Y_%m_%d_%H_%M_%S\<close>\<close>

definition digit_char :: "nat \<Rightarrow> char" where
  "digit_char k = ''0123456789'' ! k"

definition pad2 :: "nat \<Rightarrow> string" where
  "pad2 n = [digit_char (n div 10 mod 10), digit_char (n mod 10)]"

definition pad4 :: "nat \<Rightarrow> string" where
  "pad4 n = [digit_char (n div 1000 mod 10), digit_char (n div 100 mod 10),
             digit_char (n div 10 mod 10), digit_char (n mod 10)]"

text \<open>
  \<^verbatim>\<open>now.strftime("%Y_%m_%d_%H_%M_%S")\<close>, for the years from 1000 on, where \<^verbatim>\<open>%Y\<close>
  has four digits on every platform.
\<close>

definition strftime_full :: "datetime \<Rightarrow> string" where
  "strftime_full t =
     pad4 (year t) @ ''_'' @ pad2 (month t) @ ''_'' @ pad2 (day t) @ ''_''
       @ pad2 (hour t) @ ''_'' @ pad2 (minute t) @ ''_'' @ pad2 (second t)"

text \<open>The parts of a text between the occurrences of a separator.\<close>

fun split_acc :: "char \<Rightarrow> string \<Rightarrow> string \<Rightarrow> string list" where
  "split_acc c acc [] = [acc]"
| "split_acc c acc (x # xs) =
     (if x = c then acc # split_acc c [] xs else split_acc c (acc @ [x]) xs)"

definition split_on :: "char \<Rightarrow> string \<Rightarrow> string list" where
  "split_on c s = split_acc c [] s"

definition is_digit :: "char \<Rightarrow> bool" where
  "is_digit c = (c \<in> set ''0123456789'')"

definition digit_val :: "char \<Rightarrow> nat" where
  "digit_val c = of_char c - 48"

definition nat_of_digits :: "string \<Rightarrow> nat" where
  "nat_of_digits s = foldl (\<lambda>a c. 10 * a + digit_val c) 0 s"

text \<open>
  A numeric directive: between \<open>lo_len\<close> and \<open>hi_len\<close> decimal digits whose value is
  in a range. \<^verbatim>\<open>%Y\<close> is four digits; \<^verbatim>\<open>%m\<close> is \<^verbatim>\<open>1[0-2]|0[1-9]|[1-9]\<close>, that is one
  or two digits with a value from 1 to 12; \<^verbatim>\<open>%H\<close>, \<^verbatim>\<open>%M\<close> and \<^verbatim>\<open>%S\<close> likewise with
  the ranges 0 to 23, 0 to 59 and 0 to 61; \<^verbatim>\<open>%d\<close> has the values 1 to 31 and also
  takes a space followed by one digit from 1 to 9.
\<close>

definition num_field :: "nat \<Rightarrow> nat \<Rightarrow> nat \<Rightarrow> nat \<Rightarrow> string \<Rightarrow> nat option" where
  "num_field lo_len hi_len lo hi s =
     (if lo_len \<le> length s \<and> length s \<le> hi_len \<and> list_all is_digit s
         \<and> lo \<le> nat_of_digits s \<and> nat_of_digits s \<le> hi
      then Some (nat_of_digits s) else None)"

definition day_field :: "string \<Rightarrow> nat option" where
  "day_field s =
     (case s of
        [a, b] \<Rightarrow> if a = CHR '' '' then num_field 1 1 1 9 [b] else num_field 1 2 1 31 s
      | _ \<Rightarrow> num_field 1 2 1 31 s)"

text \<open>The \<^verbatim>\<open>datetime\<close> constructor: the fields, or nothing where it raises \<^verbatim>\<open>ValueError\<close>.\<close>

definition datetime_new ::
    "nat \<Rightarrow> nat \<Rightarrow> nat \<Rightarrow> nat \<Rightarrow> nat \<Rightarrow> nat \<Rightarrow> nat \<Rightarrow> datetime option" where
  "datetime_new y m d hh mm ss us =
     (let t = \<lparr>year = y, month = m, day = d, hour = hh, minute = mm, second = ss,
               microsecond = us\<rparr>
      in if valid_datetime t then Some t else None)"

text \<open>
  \<^verbatim>\<open>datetime.strptime(s, "%Y_%m_%d_%H_%M_%S")\<close>: the datetime, or nothing where it
  raises \<^verbatim>\<open>ValueError\<close>. No directive matches an underscore, so the text matches the
  format exactly when its six underscore-separated parts match the six directives.
\<close>

definition strptime_full :: "string \<Rightarrow> datetime option" where
  "strptime_full s =
     (case split_on (CHR ''_'') s of
        [fy, fm, fd, fH, fM, fS] \<Rightarrow>
          (case (num_field 4 4 0 9999 fy, num_field 1 2 1 12 fm, day_field fd,
                 num_field 1 2 0 23 fH, num_field 1 2 0 59 fM, num_field 1 2 0 61 fS) of
             (Some y, Some m, Some d, Some hh, Some mm, Some ss) \<Rightarrow>
               datetime_new y m d hh mm ss 0
           | _ \<Rightarrow> None)
      | _ \<Rightarrow> None)"

section \<open>Paths, the disk and the logging registry\<close>

text \<open>
  A path is a root flag and its components. \<^verbatim>\<open>a / b\<close> is \<open>b\<close> itself when \<open>b\<close> is
  absolute, and \<open>a\<close> extended by the components of \<open>b\<close> otherwise.
\<close>

record path =
  absolute :: bool
  parts :: "string list"

definition joinpath :: "path \<Rightarrow> path \<Rightarrow> path" where
  "joinpath a b = (if absolute b then b else a\<lparr>parts := parts a @ parts b\<rparr>)"

definition with_parents :: "path \<Rightarrow> path list" where
  "with_parents p = map (\<lambda>k. p\<lparr>parts := take k (parts p)\<rparr>) [0..<Suc (length (parts p))]"

datatype handler = StreamHandler nat | FileHandler path string nat

record py_logger =
  level :: nat
  handlers :: "handler list"

text \<open>
  The part of the world the logger manager touches: the directories that exist, the
  names of the regular files in each directory (in the order a directory scan gives
  them), and the loggers of the \<^verbatim>\<open>logging\<close> module by name. The files of the log
  folder are the process's own, which it may create and delete.
\<close>

record world =
  dirs :: "path set"
  entries :: "path \<Rightarrow> string list"
  loggers :: "string \<Rightarrow> py_logger option"

definition DEBUG :: nat where "DEBUG = 10"
definition INFO :: nat where "INFO = 20"
definition NOTSET :: nat where "NOTSET = 0"

definition mkdir_parents :: "path \<Rightarrow> world \<Rightarrow> world" where
  "mkdir_parents p w = w\<lparr>dirs := dirs w \<union> set (with_parents p)\<rparr>"

definition getLogger :: "string \<Rightarrow> world \<Rightarrow> world" where
  "getLogger name w =
     (case loggers w name of
        Some l \<Rightarrow> w
      | None \<Rightarrow> w\<lparr>loggers := (loggers w)(name \<mapsto> \<lparr>level = NOTSET, handlers = []\<rparr>)\<rparr>)"

definition setLevel :: "string \<Rightarrow> nat \<Rightarrow> world \<Rightarrow> world" where
  "setLevel name lvl w =
     w\<lparr>loggers := (\<lambda>n. if n = name then map_option (\<lambda>l. l\<lparr>level := lvl\<rparr>) (loggers w n)
                         else loggers w n)\<rparr>"

definition addHandler :: "string \<Rightarrow> handler \<Rightarrow> world \<Rightarrow> world" where
  "addHandler name h w =
     w\<lparr>loggers := (\<lambda>n. if n = name
                         then map_option (\<lambda>l. l\<lparr>handlers := handlers l @ [h]\<rparr>) (loggers w n)
                         else loggers w n)\<rparr>"

text \<open>
  \<^verbatim>\<open>logging.FileHandler(folder / name)\<close> opens the file for appending, which creates
  it; the folder has to exist.
\<close>

definition touch :: "path \<Rightarrow> string \<Rightarrow> world \<Rightarrow> world" where
  "touch folder name w =
     (if name \<in> set (entries w folder) then w
      else w\<lparr>entries := (entries w)(folder := entries w folder @ [name])\<rparr>)"

definition open_append :: "path \<Rightarrow> string \<Rightarrow> world \<Rightarrow> error + world" where
  "open_append folder name w =
     (if folder \<notin> dirs w then Inl (FileNotFoundError name) else Inr (touch folder name w))"

section \<open>The logger manager\<close>

record LoggerManager =
  save_log :: bool
  logfolder :: path
  logger :: "string option"

text \<open>\<^verbatim>\<open>LoggerManager.__init__(base_save_path, logfolderpath, save_log)\<close>.\<close>

definition init :: "path \<Rightarrow> path \<Rightarrow> bool \<Rightarrow> world \<Rightarrow> LoggerManager \<times> world" where
  "init base_save_path logfolderpath save w =
     (let w1 = (if save then mkdir_parents (joinpath base_save_path logfolderpath) w else w)
      in (\<lparr>save_log = save, logfolder = joinpath base_save_path logfolderpath, logger = None\<rparr>,
          w1))"

text \<open>\<^verbatim>\<open>_get_full_time\<close>, at the clock reading \<open>now\<close>.\<close>

definition get_full_time :: "datetime \<Rightarrow> string" where
  "get_full_time now = strftime_full now"

definition logger_name :: string where
  "logger_name = ''4chan_requester''"

text \<open>
  \<^verbatim>\<open>_setup_save_logging\<close>. It reads the clock twice, once for each file name. An
  exception leaves what was done before it in place.
\<close>

definition setup_save_logging ::
    "LoggerManager \<Rightarrow> datetime \<Rightarrow> datetime \<Rightarrow> world \<Rightarrow> world \<times> error option" where
  "setup_save_logging self now1 now2 w =
     (let infolog = ''info_log'' @ get_full_time now1 @ ''.log''
      in case open_append (logfolder self) infolog w of
           Inl e \<Rightarrow> (w, Some e)
         | Inr w1 \<Rightarrow>
             (let w2 = addHandler logger_name (FileHandler (logfolder self) infolog INFO) w1;
                  debuglog = ''debug_log'' @ get_full_time now2 @ ''.log''
              in case open_append (logfolder self) debuglog w2 of
                   Inl e \<Rightarrow> (w2, Some e)
                 | Inr w3 \<Rightarrow>
                     (addHandler logger_name (FileHandler (logfolder self) debuglog DEBUG) w3,
                      None)))"

text \<open>
  \<^verbatim>\<open>setup_logging(stream_log_level)\<close>. The text of the first log record is not part
  of the model.
\<close>

definition setup_logging ::
    "LoggerManager \<Rightarrow> nat \<Rightarrow> datetime \<Rightarrow> datetime \<Rightarrow> world
       \<Rightarrow> LoggerManager \<times> world \<times> error option" where
  "setup_logging self stream_log_level now1 now2 w =
     (let self1 = self\<lparr>logger := Some logger_name\<rparr>;
          w1 = setLevel logger_name DEBUG (getLogger logger_name w);
          w2 = addHandler logger_name (StreamHandler stream_log_level) w1
      in if save_log self1
         then (case setup_save_logging self1 now1 now2 w2 of (w3, r) \<Rightarrow> (self1, w3, r))
         else (self1, w2, None))"

text \<open>\<^verbatim>\<open>get_logger\<close>: the logger, by its name in the registry.\<close>

definition get_logger :: "LoggerManager \<Rightarrow> error + string" where
  "get_logger self =
     (case logger self of
        None \<Rightarrow> Inl (RuntimeError ''Logger not set up yet. Call setup_logging() first.'')
      | Some l \<Rightarrow> Inr l)"

subsection \<open>Cleaning up old logs\<close>

text \<open>\<^verbatim>\<open>glob("*.log")\<close> keeps the names that end in \<^verbatim>\<open>.log\<close>.\<close>

definition matches_log :: "string \<Rightarrow> bool" where
  "matches_log name = suffix ''.log'' name"

definition glob_log :: "path \<Rightarrow> world \<Rightarrow> string list" where
  "glob_log folder w = (if folder \<in> dirs w then filter matches_log (entries w folder) else [])"

text \<open>
  The slice \<^verbatim>\<open>name[-len("yyyy_mm_dd_hh_mm_ss.log"):-len(".log")]\<close>, that is
  \<^verbatim>\<open>name[-23:-4]\<close>: both ends are clamped to the start of the name.
\<close>

definition file_date_str :: "string \<Rightarrow> string" where
  "file_date_str name =
     (let n = length name;
          start = (if 23 \<le> n then n - 23 else 0);
          stop = (if 4 \<le> n then n - 4 else 0)
      in drop start (take stop name))"

definition os_remove :: "string \<Rightarrow> string list \<Rightarrow> error + string list" where
  "os_remove name es =
     (if name \<in> set es then Inr (remove1 name es) else Inl (FileNotFoundError name))"

text \<open>
  The loop over the glob's results, on the names of the folder. An exception ends
  it, with the files removed so far gone.
\<close>

fun cleanup_loop ::
    "datetime \<Rightarrow> string list \<Rightarrow> string list \<Rightarrow> string list \<times> error option" where
  "cleanup_loop threshold_date [] es = (es, None)"
| "cleanup_loop threshold_date (log_file # rest) es =
     (case strptime_full (file_date_str log_file) of
        None \<Rightarrow> (es, Some (ValueError (file_date_str log_file)))
      | Some file_date \<Rightarrow>
          if dt_lt file_date threshold_date
          then (case os_remove log_file es of
                  Inl e \<Rightarrow> (es, Some e)
                | Inr es' \<Rightarrow> cleanup_loop threshold_date rest es')
          else cleanup_loop threshold_date rest es)"

text \<open>\<^verbatim>\<open>cleanup_old_logs(days_to_keep)\<close>, at the clock reading \<open>now\<close>.\<close>

definition cleanup_old_logs ::
    "LoggerManager \<Rightarrow> int \<Rightarrow> datetime \<Rightarrow> world \<Rightarrow> world \<times> error option" where
  "cleanup_old_logs self days_to_keep now w =
     (case timedelta_days days_to_keep of
        Inl e \<Rightarrow> (w, Some e)
      | Inr td \<Rightarrow>
          (case dt_sub_days now td of
             Inl e \<Rightarrow> (w, Some e)
           | Inr threshold_date \<Rightarrow>
               (case cleanup_loop threshold_date (glob_log (logfolder self) w)
                       (entries w (logfolder self)) of
                  (es, r) \<Rightarrow> (w\<lparr>entries := (entries w)(logfolder self := es)\<rparr>, r))))"

definition default_days_to_keep :: int where
  "default_days_to_keep = 3"

text \<open>
  Whether the timestamp in a file's name parses and is strictly before the threshold.
\<close>

definition has_old_timestamp :: "datetime \<Rightarrow> string \<Rightarrow> bool" where
  "has_old_timestamp threshold_date name =
     (case strptime_full (file_date_str name) of
        None \<Rightarrow> False
      | Some file_date \<Rightarrow> dt_lt file_date threshold_date)"

subsection \<open>Sequences of calls\<close>

text \<open>
  The calls a client makes on a manager, each with the clock readings it takes. A call
  that raises leaves the manager and the world as they were when it raised.
\<close>

datatype call =
    SetupLogging nat datetime datetime
  | CleanupOldLogs int datetime
  | GetLogger

fun run_call :: "call \<Rightarrow> LoggerManager \<times> world \<Rightarrow> LoggerManager \<times> world" where
  "run_call (SetupLogging lvl now1 now2) (self, w) =
     (case setup_logging self lvl now1 now2 w of (self', w', r) \<Rightarrow> (self', w'))"
| "run_call (CleanupOldLogs days_to_keep now) (self, w) =
     (self, fst (cleanup_old_logs self days_to_keep now w))"
| "run_call GetLogger (self, w) = (self, w)"

fun run_calls :: "call list \<Rightarrow> LoggerManager \<times> world \<Rightarrow> LoggerManager \<times> world" where
  "run_calls [] s = s"
| "run_calls (c # cs) s = run_calls cs (run_call c s)"

text \<open>A disk with nothing on it and no logger yet.\<close>

definition empty_world :: world where
  "empty_world = \<lparr>dirs = {}, entries = (\<lambda>p. []), loggers = (\<lambda>n. None)\<rparr>"

text \<open>
  What holds of a manager and the world once \<^verbatim>\<open>setup_logging\<close> has been called: the
  manager names the logger, and the registry has it.
\<close>

definition ready :: "LoggerManager \<times> world \<Rightarrow> bool" where
  "ready s = (logger (fst s) = Some logger_name \<and> loggers (snd s) logger_name \<noteq> None)"

text \<open>
  What the cleanup is specified to leave of a folder: the names without
  the \<^verbatim>\<open>*.log\<close> names whose timestamp is old.
\<close>

definition without_old_logs :: "datetime \<Rightarrow> string list \<Rightarrow> string list" where
  "without_old_logs threshold_date es =
     filter (\<lambda>n. \<not> (matches_log n \<and> has_old_timestamp threshold_date n)) es"

text \<open>A log folder, a world holding it, a manager for it and a clock reading, for concrete runs.\<close>

definition logs_folder :: path where
  "logs_folder = \<lparr>absolute = False, parts = [''out'', ''logs'']\<rparr>"

definition logs_world :: "string list \<Rightarrow> world" where
  "logs_world names =
     \<lparr>dirs = {logs_folder}, entries = (\<lambda>p. if p = logs_folder then names else []),
      loggers = (\<lambda>n. None)\<rparr>"

definition logs_manager :: "bool \<Rightarrow> LoggerManager" where
  "logs_manager save = \<lparr>save_log = save, logfolder = logs_folder, logger = None\<rparr>"

definition jan5_noon :: datetime where
  "jan5_noon = \<lparr>year = 2024, month = 1, day = 5, hour = 12, minute = 0, second = 7,
                 microsecond = 123\<rparr>"

section \<open>Properties of the validator and of the configuration loader\<close>

lemma float_ge_not_lt: "float_ge a b \<Longrightarrow> \<not> float_lt a b"
  by (cases a; cases b) simp_all

lemma missing_fields_dict:
  "missing_fields names (PDict kvs) = Inr (filter (\<lambda>f. f \<notin> set (map fst kvs)) names)"
  by (induction names) simp_all

text \<open>
  Claim C1. A file that holds well-formed JSON whose top-level object has all six
  required keys is loaded as its parsed content: the loader returns the very mapping
  the parser produced, with no key added or removed and no value changed.
\<close>

theorem load_config_returns_parsed_mapping:
  assumes "fs config_path = Content text"
    and "json_load text = Some (PDict kvs)"
    and "set required_fields \<subseteq> set (map fst kvs)"
  shows "load_and_validate_config fs json_load config_path = Inr (PDict kvs)"
proof -
  have "filter (\<lambda>f. f \<notin> set (map fst kvs)) required_fields = []"
    using assms(3) by (auto simp: filter_empty_conv)
  then show ?thesis
    using assms(1,2) by (simp add: load_and_validate_config_def missing_fields_dict)
qed

theorem load_config_returns_parsed_mapping_witness:
  "load_and_validate_config (one_file ''config.json'' ''{...}'')
     (parses_to ''{...}''
        (PDict [(''boards'', PList [PStr ''a'']), (''exclude_boards'', PBool False),
                (''request_time_limit'', PFloat (Finite (3/2))), (''output_path'', PStr ''out''),
                (''save_log'', PBool True), (''clean_log'', PBool True), (''extra'', PNone)]))
     ''config.json''
   = Inr (PDict [(''boards'', PList [PStr ''a'']), (''exclude_boards'', PBool False),
                 (''request_time_limit'', PFloat (Finite (3/2))), (''output_path'', PStr ''out''),
                 (''save_log'', PBool True), (''clean_log'', PBool True), (''extra'', PNone)])"
  by (rule load_config_returns_parsed_mapping)
     (simp_all add: one_file_def parses_to_def required_fields_def)

text \<open>
  Claim C2. When \<^verbatim>\<open>float(v)\<close> is below one the validator raises
  \<^verbatim>\<open>argparse.ArgumentTypeError\<close>, and when \<^verbatim>\<open>float(v)\<close> is at least one it returns
  that float.
\<close>

theorem check_positive_float_threshold:
  assumes "float_of v = Some f"
  shows "(float_lt f (Finite 1) \<longrightarrow>
            check_positive_float float_of v =
              Inl (ArgumentTypeError
                     (''--request-time-limit value should be at least 1, now is '' @ v)))
       \<and> (float_ge f (Finite 1) \<longrightarrow> check_positive_float float_of v = Inr f)"
  using assms by (auto simp: check_positive_float_def dest: float_ge_not_lt)

theorem check_positive_float_threshold_witness:
  "check_positive_float (\<lambda>s. if s = ''0.5'' then Some (Finite (1/2)) else Some (Finite 1)) ''0.5''
     = Inl (ArgumentTypeError ''--request-time-limit value should be at least 1, now is 0.5'')
   \<and> check_positive_float (\<lambda>s. if s = ''0.5'' then Some (Finite (1/2)) else Some (Finite 1)) ''1''
     = Inr (Finite 1)"
  using check_positive_float_threshold
          [of "\<lambda>s. if s = ''0.5'' then Some (Finite (1/2)) else Some (Finite 1)"
              "''0.5''" "Finite (1/2)"]
        check_positive_float_threshold
          [of "\<lambda>s. if s = ''0.5'' then Some (Finite (1/2)) else Some (Finite 1)"
              "''1''" "Finite 1"]
  by simp

text \<open>Splitting a joined list of names that hold no comma gives the names back.\<close>

lemma split_comma_space_last:
  "CHR '','' \<notin> set x \<Longrightarrow> split_comma_space acc x = [acc @ x]"
proof (induction x arbitrary: acc)
  case Nil
  then show ?case by simp
next
  case (Cons a x)
  then show ?case by (cases x) auto
qed

lemma split_comma_space_part:
  "CHR '','' \<notin> set x \<Longrightarrow>
     split_comma_space acc (x @ CHR '','' # CHR '' '' # rest) = (acc @ x) # split_comma_space [] rest"
proof (induction x arbitrary: acc)
  case Nil
  then show ?case by simp
next
  case (Cons a x)
  then show ?case by (cases x) auto
qed

lemma split_comma_space_join:
  assumes "xs \<noteq> []" and "\<forall>x \<in> set xs. CHR '','' \<notin> set x"
  shows "split_comma_space [] (join '', '' xs) = xs"
  using assms
proof (induction "'', ''" xs rule: join.induct)
  case 1
  then show ?case by simp
next
  case (2 x)
  then show ?case by (simp add: split_comma_space_last)
next
  case (3 x y ys)
  then have "split_comma_space [] (join '', '' (y # ys)) = y # ys"
    by simp
  moreover have "CHR '','' \<notin> set x"
    using "3.prems" by simp
  ultimately show ?case
    by (simp add: split_comma_space_part)
qed

text \<open>
  Claim C3. When the top-level object of the file lacks some of the six required
  keys, the loader raises \<^verbatim>\<open>ValueError\<close>. Its message begins with
  \<^verbatim>\<open>Missing required fields in config: \<close> and goes on with the names of the required
  keys that the object does not have, separated by a comma and a space: read back
  from the message, the names listed are exactly those keys, each once, in the order
  of the list of required keys, and no others.
\<close>

theorem load_config_lists_missing_keys:
  assumes "fs config_path = Content text"
    and "json_load text = Some (PDict kvs)"
    and "\<not> set required_fields \<subseteq> set (map fst kvs)"
  shows "\<exists>message. load_and_validate_config fs json_load config_path = Inl (ValueError message)
            \<and> message = ''Missing required fields in config: ''
                          @ join '', '' (filter (\<lambda>f. f \<notin> set (map fst kvs)) required_fields)
            \<and> take (length ''Missing required fields in config: '') message
                 = ''Missing required fields in config: ''
            \<and> listed_names message = filter (\<lambda>f. f \<notin> set (map fst kvs)) required_fields
            \<and> set (listed_names message) = set required_fields - set (map fst kvs)
            \<and> distinct (listed_names message)"
proof -
  let ?ms = "filter (\<lambda>f. f \<notin> set (map fst kvs)) required_fields"
  let ?message = "''Missing required fields in config: '' @ join '', '' ?ms"
  have ne: "?ms \<noteq> []"
    using assms(3) by (auto simp: filter_empty_conv)
  then have run: "load_and_validate_config fs json_load config_path = Inl (ValueError ?message)"
    using assms(1,2) by (simp add: load_and_validate_config_def missing_fields_dict)
  have "\<forall>x \<in> set ?ms. CHR '','' \<notin> set x"
    by (auto simp: required_fields_def)
  with ne have "split_comma_space [] (join '', '' ?ms) = ?ms"
    by (rule split_comma_space_join)
  then have listed: "listed_names ?message = ?ms"
    by (simp add: listed_names_def)
  have "set ?ms = set required_fields - set (map fst kvs)"
    by auto
  moreover have "distinct ?ms"
    by (rule distinct_filter) (simp add: required_fields_def)
  moreover have "take (length ''Missing required fields in config: '') ?message
                   = ''Missing required fields in config: ''"
    by simp
  ultimately show ?thesis
    using run listed by (intro exI [of _ ?message]) (simp only: simp_thms)
qed

theorem load_config_lists_missing_keys_witness:
  "load_and_validate_config (one_file ''config.json'' ''{...}'')
     (parses_to ''{...}''
        (PDict [(''boards'', PList []), (''output_path'', PStr ''out''),
                (''save_log'', PBool True), (''clean_log'', PBool True)]))
     ''config.json''
   = Inl (ValueError ''Missing required fields in config: exclude_boards, request_time_limit'')
   \<and> listed_names ''Missing required fields in config: exclude_boards, request_time_limit''
     = [''exclude_boards'', ''request_time_limit'']"
proof -
  let ?fs = "one_file ''config.json'' ''{...}''"
  let ?kvs = "[(''boards'', PList []), (''output_path'', PStr ''out''),
               (''save_log'', PBool True), (''clean_log'', PBool True)]"
  have h1: "?fs ''config.json'' = Content ''{...}''"
    by (simp add: one_file_def)
  have h2: "parses_to ''{...}'' (PDict ?kvs) ''{...}'' = Some (PDict ?kvs)"
    by (simp add: parses_to_def)
  have h3: "\<not> set required_fields \<subseteq> set (map fst ?kvs)"
    by (simp add: required_fields_def)
  have ms: "filter (\<lambda>f. f \<notin> set (map fst ?kvs)) required_fields
              = [''exclude_boards'', ''request_time_limit'']"
    by (simp add: required_fields_def)
  have msg: "''Missing required fields in config: ''
               @ join '', '' [''exclude_boards'', ''request_time_limit'']
             = ''Missing required fields in config: exclude_boards, request_time_limit''"
    by simp
  from load_config_lists_missing_keys
         [of ?fs "''config.json''" "''{...}''" "parses_to ''{...}'' (PDict ?kvs)" ?kvs,
          OF h1 h2 h3]
  show ?thesis
    unfolding ms msg by blast
qed

text \<open>
  Claim C4. A path at which there is nothing makes the loader raise
  \<^verbatim>\<open>FileNotFoundError\<close>; a file whose text is not valid JSON makes it raise
  \<^verbatim>\<open>ValueError\<close> with the message \<^verbatim>\<open>Invalid JSON format in ...\<close>. The two results
  are never equal, whatever the paths.
\<close>

theorem load_config_not_found_and_invalid_json:
  "(fs config_path = Absent \<longrightarrow>
      load_and_validate_config fs json_load config_path =
        Inl (FileNotFoundError (''Config file not found at '' @ config_path)))
   \<and> (fs config_path = Content text \<and> json_load text = None \<longrightarrow>
      load_and_validate_config fs json_load config_path =
        Inl (ValueError (''Invalid JSON format in '' @ config_path)))
   \<and> (fs p1 = Absent \<and> fs p2 = Content text \<and> json_load text = None \<longrightarrow>
      load_and_validate_config fs json_load p1 \<noteq> load_and_validate_config fs json_load p2)"
  by (simp add: load_and_validate_config_def)

theorem load_config_not_found_and_invalid_json_witness:
  "load_and_validate_config (one_file ''config.json'' ''{broken'') (parses_to ''{}'' (PDict []))
     ''other.json'' = Inl (FileNotFoundError ''Config file not found at other.json'')
   \<and> load_and_validate_config (one_file ''config.json'' ''{broken'') (parses_to ''{}'' (PDict []))
     ''config.json'' = Inl (ValueError ''Invalid JSON format in config.json'')
   \<and> load_and_validate_config (one_file ''config.json'' ''{broken'') (parses_to ''{}'' (PDict []))
     ''other.json''
     \<noteq> load_and_validate_config (one_file ''config.json'' ''{broken'') (parses_to ''{}'' (PDict []))
     ''config.json''"
  using load_config_not_found_and_invalid_json
          [of "one_file ''config.json'' ''{broken''" "''other.json''" "parses_to ''{}'' (PDict [])"
              "''{broken''" "''other.json''" "''config.json''"]
        load_config_not_found_and_invalid_json
          [of "one_file ''config.json'' ''{broken''" "''config.json''" "parses_to ''{}'' (PDict [])"
              "''{broken''" "''other.json''" "''config.json''"]
  by (simp add: one_file_def parses_to_def)

section \<open>Properties of the logger accessor\<close>

lemma loggers_getLogger: "loggers (getLogger n w) n \<noteq> None"
  by (simp add: getLogger_def split: option.splits)

lemma loggers_setLevel: "loggers w n \<noteq> None \<Longrightarrow> loggers (setLevel m lvl w) n \<noteq> None"
  by (auto simp: setLevel_def)

lemma loggers_addHandler: "loggers w n \<noteq> None \<Longrightarrow> loggers (addHandler m h w) n \<noteq> None"
  by (auto simp: addHandler_def)

lemma loggers_open_append: "open_append folder name w = Inr w' \<Longrightarrow> loggers w' = loggers w"
  by (auto simp: open_append_def touch_def split: if_splits)

lemma loggers_setup_save_logging:
  assumes "loggers w n \<noteq> None"
  shows "loggers (fst (setup_save_logging self now1 now2 w)) n \<noteq> None"
proof (cases "open_append (logfolder self) (''info_log'' @ get_full_time now1 @ ''.log'') w")
  case (Inl e)
  then show ?thesis
    using assms by (simp add: setup_save_logging_def)
next
  case (Inr w1)
  let ?w2 = "addHandler logger_name
               (FileHandler (logfolder self) (''info_log'' @ get_full_time now1 @ ''.log'') INFO) w1"
  have w2: "loggers ?w2 n \<noteq> None"
    using assms loggers_open_append [OF Inr] by (intro loggers_addHandler) simp
  show ?thesis
  proof (cases "open_append (logfolder self) (''debug_log'' @ get_full_time now2 @ ''.log'') ?w2")
    case (Inl e)
    then show ?thesis
      using Inr w2 by (simp add: setup_save_logging_def)
  next
    case (Inr w3)
    have "loggers w3 n \<noteq> None"
      using w2 loggers_open_append [OF Inr] by simp
    then have "loggers (addHandler logger_name
                 (FileHandler (logfolder self) (''debug_log'' @ get_full_time now2 @ ''.log'') DEBUG)
                 w3) n \<noteq> None"
      by (rule loggers_addHandler)
    then show ?thesis
      using \<open>open_append (logfolder self) (''info_log'' @ get_full_time now1 @ ''.log'') w = Inr w1\<close>
        Inr by (simp add: setup_save_logging_def)
  qed
qed

lemma ready_setup_logging:
  "setup_logging self lvl now1 now2 w = (self', w', r) \<Longrightarrow> ready (self', w')"
proof -
  assume a: "setup_logging self lvl now1 now2 w = (self', w', r)"
  let ?w2 = "addHandler logger_name (StreamHandler lvl)
               (setLevel logger_name DEBUG (getLogger logger_name w))"
  have w2: "loggers ?w2 logger_name \<noteq> None"
    by (intro loggers_addHandler loggers_setLevel loggers_getLogger)
  show ?thesis
  proof (cases "save_log self")
    case True
    with a have "self' = self\<lparr>logger := Some logger_name\<rparr>"
      and "w' = fst (setup_save_logging (self\<lparr>logger := Some logger_name\<rparr>) now1 now2 ?w2)"
      by (auto simp: setup_logging_def Let_def split: prod.splits)
    then show ?thesis
      using loggers_setup_save_logging [OF w2] by (simp add: ready_def)
  next
    case False
    with a have "self' = self\<lparr>logger := Some logger_name\<rparr>" and "w' = ?w2"
      by (auto simp: setup_logging_def Let_def)
    then show ?thesis
      using w2 by (simp add: ready_def)
  qed
qed

lemma loggers_cleanup_old_logs: "loggers (fst (cleanup_old_logs self d now w)) = loggers w"
  by (simp add: cleanup_old_logs_def split: sum.splits prod.splits)

lemma ready_run_call: "ready s \<Longrightarrow> ready (run_call c s)"
proof (cases s)
  case (Pair self w)
  assume r: "ready s"
  show ?thesis
  proof (cases c)
    case (SetupLogging lvl now1 now2)
    obtain self' w' e where "setup_logging self lvl now1 now2 w = (self', w', e)"
      by (cases "setup_logging self lvl now1 now2 w") auto
    then show ?thesis
      using ready_setup_logging Pair SetupLogging by fastforce
  next
    case (CleanupOldLogs d now)
    then show ?thesis
      using r Pair by (simp add: ready_def loggers_cleanup_old_logs)
  next
    case GetLogger
    then show ?thesis using r Pair by simp
  qed
qed

lemma ready_run_calls: "ready s \<Longrightarrow> ready (run_calls cs s)"
  by (induction cs arbitrary: s) (simp_all add: ready_run_call)

lemma logger_unset_run_call:
  "logger (fst s) = None \<Longrightarrow> \<forall>lvl a b. c \<noteq> SetupLogging lvl a b \<Longrightarrow>
     logger (fst (run_call c s)) = None"
  by (cases s; cases c) simp_all

lemma logger_unset_run_calls:
  "logger (fst s) = None \<Longrightarrow> \<forall>lvl a b. SetupLogging lvl a b \<notin> set cs \<Longrightarrow>
     logger (fst (run_calls cs s)) = None"
proof (induction cs arbitrary: s)
  case Nil
  then show ?case by simp
next
  case (Cons c cs)
  have "logger (fst (run_call c s)) = None"
    using Cons.prems by (intro logger_unset_run_call) auto
  then show ?case
    using Cons by simp
qed

lemma get_logger_before_and_after_setup:
  "((\<forall>lvl a b. SetupLogging lvl a b \<notin> set cs0) \<longrightarrow>
      get_logger (fst (run_calls cs0 (init base_save_path logfolderpath save w0))) =
        Inl (RuntimeError ''Logger not set up yet. Call setup_logging() first.''))
   \<and> (setup_logging self lvl now1 now2 w = (self', w', r) \<longrightarrow>
        get_logger (fst (run_calls cs (self', w'))) = Inr logger_name
        \<and> loggers (snd (run_calls cs (self', w'))) logger_name \<noteq> None)"
proof (intro conjI impI)
  assume "\<forall>lvl a b. SetupLogging lvl a b \<notin> set cs0"
  moreover have "logger (fst (init base_save_path logfolderpath save w0)) = None"
    by (simp add: init_def Let_def)
  ultimately have "logger (fst (run_calls cs0 (init base_save_path logfolderpath save w0))) = None"
    by (rule logger_unset_run_calls [rotated])
  then show "get_logger (fst (run_calls cs0 (init base_save_path logfolderpath save w0))) =
               Inl (RuntimeError ''Logger not set up yet. Call setup_logging() first.'')"
    by (simp add: get_logger_def)
next
  assume "setup_logging self lvl now1 now2 w = (self', w', r)"
  then have "ready (run_calls cs (self', w'))"
    by (intro ready_run_calls ready_setup_logging)
  then show "get_logger (fst (run_calls cs (self', w'))) = Inr logger_name"
    and "loggers (snd (run_calls cs (self', w'))) logger_name \<noteq> None"
    by (simp_all add: ready_def get_logger_def)
qed

text \<open>
  Claim C6. As long as \<^verbatim>\<open>setup_logging\<close> has not been called on a freshly built
  manager, \<^verbatim>\<open>get_logger\<close> raises \<^verbatim>\<open>RuntimeError\<close>. Once \<^verbatim>\<open>setup_logging\<close> has been
  called, whether or not it raised, \<^verbatim>\<open>get_logger\<close> returns the logger after any further
  calls, and the logging registry holds a logger object of that name.
\<close>

theorem get_logger_needs_setup_logging:
  "((\<forall>lvl a b. SetupLogging lvl a b \<notin> set cs0) \<longrightarrow>
      get_logger (fst (run_calls cs0 (init base_save_path logfolderpath save w0))) =
        Inl (RuntimeError ''Logger not set up yet. Call setup_logging() first.''))
   \<and> (setup_logging self lvl now1 now2 w = (self', w', r) \<longrightarrow>
        get_logger (fst (run_calls cs (self', w'))) = Inr logger_name
        \<and> loggers (snd (run_calls cs (self', w'))) logger_name \<noteq> None)"
  by (rule get_logger_before_and_after_setup)

theorem get_logger_needs_setup_logging_witness:
  "get_logger (fst (run_calls [CleanupOldLogs 3 jan5_noon, GetLogger]
                      (init logs_folder logs_folder False empty_world)))
     = Inl (RuntimeError ''Logger not set up yet. Call setup_logging() first.'')
   \<and> get_logger (fst (run_calls [CleanupOldLogs 3 jan5_noon, GetLogger]
                      (fst (setup_logging (logs_manager False) INFO jan5_noon jan5_noon empty_world),
                       fst (snd (setup_logging (logs_manager False) INFO jan5_noon jan5_noon
                                   empty_world)))))
     = Inr ''4chan_requester''"
  using get_logger_needs_setup_logging
          [of "[CleanupOldLogs 3 jan5_noon, GetLogger]" logs_folder logs_folder False empty_world
              "logs_manager False" INFO jan5_noon jan5_noon empty_world
              "fst (setup_logging (logs_manager False) INFO jan5_noon jan5_noon empty_world)"
              "fst (snd (setup_logging (logs_manager False) INFO jan5_noon jan5_noon empty_world))"
              "snd (snd (setup_logging (logs_manager False) INFO jan5_noon jan5_noon empty_world))"
              "[CleanupOldLogs 3 jan5_noon, GetLogger]"]
  by (simp add: logger_name_def)

section \<open>Properties of the calendar\<close>

lemma month_cases:
  "1 \<le> m \<Longrightarrow> m \<le> 12 \<Longrightarrow>
     m = 1 \<or> m = 2 \<or> m = 3 \<or> m = 4 \<or> m = 5 \<or> m = 6 \<or> m = 7 \<or> m = 8 \<or> m = 9 \<or> m = 10
     \<or> m = 11 \<or> m = (12::nat)"
  by arith

text \<open>The month and day found for a day of the year are that day of the year.\<close>

lemma month_and_day_correct:
  assumes "r < 365" and "month_and_day L r = (m, d)"
  shows "1 \<le> m \<and> m \<le> 12 \<and> 1 \<le> d
       \<and> d \<le> DAYS_IN_MONTH ! m + (if m = 2 \<and> L then 1 else 0)
       \<and> DAYS_BEFORE_MONTH ! m + (if 2 < m \<and> L then 1 else 0) + d = r + 1"
proof -
  define q where "q = (r + 50) div 32"
  have lo: "32 * q \<le> r + 50" and hi: "r + 50 < 32 * q + 32"
    unfolding q_def by arith+
  have "1 \<le> q" "q \<le> 12"
    using assms(1) unfolding q_def by arith+
  then have "q = 1 \<or> q = 2 \<or> q = 3 \<or> q = 4 \<or> q = 5 \<or> q = 6 \<or> q = 7 \<or> q = 8 \<or> q = 9
             \<or> q = 10 \<or> q = 11 \<or> q = 12"
    by (rule month_cases)
  moreover have md: "(if r < DAYS_BEFORE_MONTH ! q + (if 2 < q \<and> L then 1 else 0)
         then (q - 1,
               r - (DAYS_BEFORE_MONTH ! q + (if 2 < q \<and> L then 1 else 0)
                     - (DAYS_IN_MONTH ! (q - 1) + (if q - 1 = 2 \<and> L then 1 else 0))) + 1)
         else (q, r - (DAYS_BEFORE_MONTH ! q + (if 2 < q \<and> L then 1 else 0)) + 1)) = (m, d)"
    using assms(2) unfolding month_and_day_def Let_def q_def .
  ultimately show ?thesis
    using lo hi assms(1)
    by (elim disjE) (auto simp: DAYS_BEFORE_MONTH_def DAYS_IN_MONTH_def split: if_splits)
qed


text \<open>
  A year written by its 400-year, 100-year and 4-year cycles: the days before it, and
  whether it is a leap year.
\<close>

lemma days_before_year_decomp:
  assumes "n100 \<le> 3" and "n4 \<le> 24" and "n1 \<le> 3"
  shows "days_before_year (400 * n400 + 100 * n100 + 4 * n4 + n1 + 1) =
           146097 * n400 + 36524 * n100 + 1461 * n4 + 365 * n1"
proof -
  define p where "p = 400 * n400 + 100 * n100 + 4 * n4 + n1"
  have "p = n1 + 4 * (100 * n400 + 25 * n100 + n4)"
    unfolding p_def by simp
  then have d4: "p div 4 = 100 * n400 + 25 * n100 + n4"
    using assms(3) by simp
  have "p = (4 * n4 + n1) + 100 * (4 * n400 + n100)"
    unfolding p_def by simp
  moreover have "4 * n4 + n1 < 100"
    using assms by simp
  ultimately have d100: "p div 100 = 4 * n400 + n100"
    by simp
  have "p = (100 * n100 + 4 * n4 + n1) + 400 * n400"
    unfolding p_def by simp
  moreover have "100 * n100 + 4 * n4 + n1 < 400"
    using assms by simp
  ultimately have d400: "p div 400 = n400"
    by simp
  have "days_before_year (p + 1) = p * 365 + p div 4 - p div 100 + p div 400"
    by (simp add: days_before_year_def)
  also have "\<dots> = 146097 * n400 + 36524 * n100 + 1461 * n4 + 365 * n1"
    unfolding d4 d100 d400 unfolding p_def by simp
  finally show ?thesis
    unfolding p_def .
qed

lemma is_leap_decomp:
  assumes "n100 \<le> 3" and "n4 \<le> 24" and "n1 \<le> 3"
  shows "is_leap (400 * n400 + 100 * n100 + 4 * n4 + n1 + 1) =
           (n1 = 3 \<and> (n4 \<noteq> 24 \<or> n100 = 3))"
proof -
  define y where "y = 400 * n400 + 100 * n100 + 4 * n4 + n1 + 1"
  have e4: "y = (n1 + 1) + 4 * (100 * n400 + 25 * n100 + n4)"
    unfolding y_def by simp
  have "y mod 4 = (n1 + 1) mod 4"
    by (simp only: e4 mod_mult_self2)
  moreover have "1 \<le> n1 + 1" "n1 + 1 \<le> 4"
    using assms by simp_all
  ultimately have "y mod 4 = 0 \<longleftrightarrow> n1 + 1 = 4"
    by (cases "n1 + 1 = 4") simp_all
  then have m4: "y mod 4 = 0 \<longleftrightarrow> n1 = 3"
    by auto
  have e100: "y = (4 * n4 + n1 + 1) + 100 * (4 * n400 + n100)"
    unfolding y_def by simp
  have "y mod 100 = (4 * n4 + n1 + 1) mod 100"
    by (simp only: e100 mod_mult_self2)
  moreover have "1 \<le> 4 * n4 + n1 + 1" "4 * n4 + n1 + 1 \<le> 100"
    using assms by simp_all
  ultimately have "y mod 100 = 0 \<longleftrightarrow> 4 * n4 + n1 + 1 = 100"
    by (cases "4 * n4 + n1 + 1 = 100") simp_all
  moreover have "4 * n4 + n1 + 1 = 100 \<longleftrightarrow> n1 = 3 \<and> n4 = 24"
    using assms by linarith
  ultimately have m100: "y mod 100 = 0 \<longleftrightarrow> n1 = 3 \<and> n4 = 24"
    by simp
  have e400: "y = (100 * n100 + 4 * n4 + n1 + 1) + 400 * n400"
    unfolding y_def by simp
  have "y mod 400 = (100 * n100 + 4 * n4 + n1 + 1) mod 400"
    by (simp only: e400 mod_mult_self2)
  moreover have "1 \<le> 100 * n100 + 4 * n4 + n1 + 1" "100 * n100 + 4 * n4 + n1 + 1 \<le> 400"
    using assms by simp_all
  ultimately have "y mod 400 = 0 \<longleftrightarrow> 100 * n100 + 4 * n4 + n1 + 1 = 400"
    by (cases "100 * n100 + 4 * n4 + n1 + 1 = 400") simp_all
  moreover have "100 * n100 + 4 * n4 + n1 + 1 = 400 \<longleftrightarrow> n1 = 3 \<and> n4 = 24 \<and> n100 = 3"
    using assms by linarith
  ultimately have m400: "y mod 400 = 0 \<longleftrightarrow> n1 = 3 \<and> n4 = 24 \<and> n100 = 3"
    by simp
  show ?thesis
    unfolding y_def [symmetric] is_leap_def m4 m100 m400 by auto
qed


text \<open>\<^verbatim>\<open>_ord2ymd\<close> gives a date of the calendar, and \<^verbatim>\<open>_ymd2ord\<close> takes it back to the ordinal.\<close>

lemma ord2ymd_correct:
  assumes "1 \<le> n" and "ord2ymd n = (y, m, d)"
  shows "1 \<le> y \<and> 1 \<le> m \<and> m \<le> 12 \<and> 1 \<le> d \<and> d \<le> days_in_month y m
       \<and> ymd2ord y m d = n"
proof -
  define k where "k = n - 1"
  define n400 where "n400 = k div 146097"
  define r400 where "r400 = k mod 146097"
  define n100 where "n100 = r400 div 36524"
  define r100 where "r100 = r400 mod 36524"
  define n4 where "n4 = r100 div 1461"
  define r4 where "r4 = r100 mod 1461"
  define n1 where "n1 = r4 div 365"
  define r1 where "r1 = r4 mod 365"
  define L where "L = (n1 = 3 \<and> (n4 \<noteq> 24 \<or> n100 = 3))"
  have n: "n = k + 1"
    using assms(1) by (simp add: k_def)
  have f1: "k = 146097 * n400 + r400" "r400 < 146097"
    by (simp_all add: n400_def r400_def)
  have f2: "r400 = 36524 * n100 + r100" "r100 < 36524"
    by (simp_all add: n100_def r100_def)
  have f3: "r100 = 1461 * n4 + r4" "r4 < 1461"
    by (simp_all add: n4_def r4_def)
  have f4: "r4 = 365 * n1 + r1" "r1 < 365"
    by (simp_all add: n1_def r1_def)
  have b100: "n100 \<le> 4" using f1(2) f2(1) by linarith
  have b4: "n4 \<le> 24" using f2(2) f3(1) by linarith
  have b1: "n1 \<le> 4" using f3(2) f4(1) by linarith
  have unf: "ord2ymd n =
      (if n1 = 4 \<or> n100 = 4 then (400 * n400 + 100 * n100 + 4 * n4 + n1, 12, 31)
       else (case month_and_day L r1 of
               (m, d) \<Rightarrow> (400 * n400 + 100 * n100 + 4 * n4 + n1 + 1, m, d)))"
    by (simp add: ord2ymd_def Let_def k_def n400_def r400_def n100_def r100_def n4_def r4_def
          n1_def r1_def L_def mult.commute add.assoc)
  consider (century) "n100 = 4" | (fourth) "n100 \<le> 3" "n1 = 4" | (normal) "n100 \<le> 3" "n1 \<le> 3"
    using b100 b1 by linarith
  then show ?thesis
  proof cases
    case century
    have "r100 = 0" using f1(2) f2(1) century by linarith
    then have z: "n4 = 0" "n1 = 0" "r1 = 0"
      by (simp_all add: n4_def r4_def n1_def r1_def)
    have kk: "k = 146097 * n400 + 146096"
      using f1(1) f2(1) century \<open>r100 = 0\<close> by simp
    have ymd: "y = 400 * n400 + 400" "m = 12" "d = 31"
      using assms(2) unf century z by simp_all
    have dby: "days_before_year (400 * n400 + 400) = 146097 * n400 + 145731"
      using days_before_year_decomp [of 3 24 3 n400] by (simp add: add.commute)
    have leap: "is_leap (400 * n400 + 400)"
      using is_leap_decomp [of 3 24 3 n400] by (simp add: add.commute)
    show ?thesis
      unfolding ymd using leap dby n kk
      by (simp add: ymd2ord_def days_before_month_def days_in_month_def
            DAYS_BEFORE_MONTH_def DAYS_IN_MONTH_def)
  next
    case fourth
    have "r1 = 0" using f3(2) f4(1) fourth by linarith
    have n4': "n4 \<le> 23" using f2(2) f3(1) f4(1) fourth by linarith
    have kk: "k = 146097 * n400 + 36524 * n100 + 1461 * n4 + 1460"
      using f1(1) f2(1) f3(1) f4(1) fourth \<open>r1 = 0\<close> by simp
    have ymd: "y = 400 * n400 + 100 * n100 + 4 * n4 + 3 + 1" "m = 12" "d = 31"
      using assms(2) unf fourth by simp_all
    have dby: "days_before_year (400 * n400 + 100 * n100 + 4 * n4 + 3 + 1) =
                 146097 * n400 + 36524 * n100 + 1461 * n4 + 365 * 3"
      using fourth(1) n4' by (intro days_before_year_decomp) simp_all
    have leap: "is_leap (400 * n400 + 100 * n100 + 4 * n4 + 3 + 1)"
      using is_leap_decomp [of n100 n4 3 n400] fourth(1) n4' by simp
    show ?thesis
      unfolding ymd using leap dby n kk
      by (simp add: ymd2ord_def days_before_month_def days_in_month_def
            DAYS_BEFORE_MONTH_def DAYS_IN_MONTH_def)
  next
    case normal
    obtain m' d' where md: "month_and_day L r1 = (m', d')"
      by (cases "month_and_day L r1") auto
    have ymd: "y = 400 * n400 + 100 * n100 + 4 * n4 + n1 + 1" "m = m'" "d = d'"
      using assms(2) unf normal md by auto
    have kk: "k = 146097 * n400 + 36524 * n100 + 1461 * n4 + 365 * n1 + r1"
      using f1(1) f2(1) f3(1) f4(1) by simp
    have dby: "days_before_year y = 146097 * n400 + 36524 * n100 + 1461 * n4 + 365 * n1"
      unfolding ymd using normal b4 by (intro days_before_year_decomp)
    have leap: "is_leap y = L"
      unfolding ymd L_def using normal b4 by (intro is_leap_decomp)
    from month_and_day_correct [OF f4(2) md]
    have mc: "1 \<le> m'" "m' \<le> 12" "1 \<le> d'"
      "d' \<le> DAYS_IN_MONTH ! m' + (if m' = 2 \<and> L then 1 else 0)"
      "DAYS_BEFORE_MONTH ! m' + (if 2 < m' \<and> L then 1 else 0) + d' = r1 + 1"
      by simp_all
    have "d \<le> days_in_month y m"
      using mc(1,2,4) unfolding ymd(2,3) days_in_month_def leap
      by (auto simp: DAYS_IN_MONTH_def)
    moreover have "ymd2ord y m d = n"
      using mc(5) dby kk n unfolding ymd2ord_def days_before_month_def leap ymd(2,3)
      by simp
    moreover have "1 \<le> y"
      using ymd(1) by simp
    ultimately show ?thesis
      using mc(1,2,3) ymd(2,3) by simp
  qed
qed

text \<open>The ordinal grows with the date: year by year, month by month, day by day.\<close>

lemma div_step:
  "Suc p div c = p div c + (if Suc p mod c = 0 then 1 else 0)"
  by (simp add: div_Suc)

lemma days_before_year_Suc:
  assumes "1 \<le> y"
  shows "days_before_year (Suc y) = days_before_year y + (if is_leap y then 366 else 365)"
proof -
  obtain p where y: "y = Suc p"
    using assms by (cases y) auto
  define a where "a = p div 4"
  define b where "b = p div 100"
  define c where "c = p div 400"
  have ba: "b \<le> a"
    unfolding a_def b_def by (rule div_le_mono2) simp_all
  have q4: "y div 4 = a + (if y mod 4 = 0 then 1 else 0)"
    unfolding y a_def by (rule div_step)
  have q100: "y div 100 = b + (if y mod 100 = 0 then 1 else 0)"
    unfolding y b_def by (rule div_step)
  have q400: "y div 400 = c + (if y mod 400 = 0 then 1 else 0)"
    unfolding y c_def by (rule div_step)
  have i1: "y mod 4 = 0" if "y mod 100 = 0"
  proof -
    have "(4::nat) dvd 100" by simp
    moreover have "100 dvd y" using that by (simp add: mod_eq_0_iff_dvd)
    ultimately have "4 dvd y" by (rule dvd_trans)
    then show ?thesis by (simp add: mod_eq_0_iff_dvd)
  qed
  have i2: "y mod 100 = 0" if "y mod 400 = 0"
  proof -
    have "(100::nat) dvd 400" by simp
    moreover have "400 dvd y" using that by (simp add: mod_eq_0_iff_dvd)
    ultimately have "100 dvd y" by (rule dvd_trans)
    then show ?thesis by (simp add: mod_eq_0_iff_dvd)
  qed
  have l: "days_before_year (Suc y) = y * 365 + y div 4 - y div 100 + y div 400"
    by (simp add: days_before_year_def)
  have r: "days_before_year y = p * 365 + a - b + c"
    by (simp add: days_before_year_def y a_def b_def c_def)
  show ?thesis
    unfolding l r q4 q100 q400 is_leap_def using ba i1 i2 y by auto
qed

lemma days_before_year_mono:
  assumes "1 \<le> y" and "y < y'"
  shows "days_before_year y + (if is_leap y then 366 else 365) \<le> days_before_year y'"
  using assms(2)
proof (induction y')
  case 0
  then show ?case by simp
next
  case (Suc z)
  show ?case
  proof (cases "y = z")
    case True
    then show ?thesis
      using days_before_year_Suc [OF assms(1)] by simp
  next
    case False
    with Suc.prems have "y < z" by simp
    then have "days_before_year y + (if is_leap y then 366 else 365) \<le> days_before_year z"
      by (rule Suc.IH)
    moreover have "days_before_year z \<le> days_before_year (Suc z)"
      using days_before_year_Suc [of z] assms(1) \<open>y < z\<close> by simp
    ultimately show ?thesis by linarith
  qed
qed

lemma days_before_month_Suc:
  assumes "1 \<le> m" and "m \<le> 11"
  shows "days_before_month y (Suc m) = days_before_month y m + days_in_month y m"
proof -
  have "m = 1 \<or> m = 2 \<or> m = 3 \<or> m = 4 \<or> m = 5 \<or> m = 6 \<or> m = 7 \<or> m = 8 \<or> m = 9 \<or> m = 10
        \<or> m = 11 \<or> m = 12"
    using assms by (intro month_cases) simp_all
  then show ?thesis
    using assms(2)
    by (elim disjE)
       (simp_all add: days_before_month_def days_in_month_def DAYS_BEFORE_MONTH_def
          DAYS_IN_MONTH_def eval_nat_numeral)
qed

lemma days_before_month_mono:
  assumes "1 \<le> m" and "m < m'" and "m' \<le> 12"
  shows "days_before_month y m + days_in_month y m \<le> days_before_month y m'"
  using assms(2,3)
proof (induction m')
  case 0
  then show ?case by simp
next
  case (Suc z)
  show ?case
  proof (cases "m = z")
    case True
    then show ?thesis
      using days_before_month_Suc [of m y] assms(1) Suc.prems by simp
  next
    case False
    with Suc.prems have "m < z" "z \<le> 12" by simp_all
    then have "days_before_month y m + days_in_month y m \<le> days_before_month y z"
      by (rule Suc.IH)
    moreover have "days_before_month y z \<le> days_before_month y (Suc z)"
      using days_before_month_Suc [of z y] assms(1) \<open>m < z\<close> Suc.prems by simp
    ultimately show ?thesis by linarith
  qed
qed

lemma year_length:
  assumes "1 \<le> m" and "m \<le> 12"
  shows "days_before_month y m + days_in_month y m \<le> (if is_leap y then 366 else 365)"
proof -
  have "m = 1 \<or> m = 2 \<or> m = 3 \<or> m = 4 \<or> m = 5 \<or> m = 6 \<or> m = 7 \<or> m = 8 \<or> m = 9 \<or> m = 10
        \<or> m = 11 \<or> m = 12"
    using assms by (rule month_cases)
  then show ?thesis
    by (elim disjE)
       (simp_all add: days_before_month_def days_in_month_def DAYS_BEFORE_MONTH_def
          DAYS_IN_MONTH_def)
qed

lemma ymd2ord_strict_mono:
  assumes "1 \<le> y" and "1 \<le> m" and "m \<le> 12" and "d \<le> days_in_month y m"
    and "1 \<le> m'" and "m' \<le> 12" and "1 \<le> d'"
    and "tuple_lt [y, m, d] [y', m', d']"
  shows "ymd2ord y m d < ymd2ord y' m' d'"
proof -
  consider "y < y'" | "y = y'" "m < m'" | "y = y'" "m = m'" "d < d'"
    using assms(8) by auto
  then show ?thesis
  proof cases
    case 1
    have "days_before_month y m + d \<le> (if is_leap y then 366 else 365)"
      using year_length [OF assms(2,3), of y] assms(4) by linarith
    then have "ymd2ord y m d \<le> days_before_year y'"
      using days_before_year_mono [OF assms(1) 1] unfolding ymd2ord_def by linarith
    then show ?thesis
      using assms(7) unfolding ymd2ord_def by linarith
  next
    case 2
    have "days_before_month y m + d \<le> days_before_month y m'"
      using days_before_month_mono [OF assms(2) 2(2) assms(6), of y] assms(4) by linarith
    then show ?thesis
      using assms(7) unfolding ymd2ord_def 2(1) [symmetric] by linarith
  next
    case 3
    then show ?thesis
      unfolding ymd2ord_def by simp
  qed
qed

lemma tuple_lt_total3:
  "\<not> tuple_lt [a, b, c] [a', b', c'] \<Longrightarrow>
     (a = a' \<and> b = b' \<and> c = c') \<or> tuple_lt [a', b', c'] [a, b, c]"
  by auto

text \<open>A later day has a later date.\<close>

lemma ord2ymd_strict_mono:
  assumes "1 \<le> i" and "i < j" and "ord2ymd i = (y, m, d)" and "ord2ymd j = (y', m', d')"
  shows "tuple_lt [y, m, d] [y', m', d']"
proof (rule ccontr)
  assume "\<not> tuple_lt [y, m, d] [y', m', d']"
  then consider "y = y' \<and> m = m' \<and> d = d'" | "tuple_lt [y', m', d'] [y, m, d]"
    using tuple_lt_total3 by blast
  then show False
  proof cases
    case 1
    have "ymd2ord y m d = i" "ymd2ord y' m' d' = j"
      using ord2ymd_correct [OF assms(1,3)] ord2ymd_correct [OF _ assms(4)] assms(1,2)
      by simp_all
    with 1 assms(2) show False by simp
  next
    case 2
    have ci: "1 \<le> m" "m \<le> 12" "1 \<le> d" "ymd2ord y m d = i"
      using ord2ymd_correct [OF assms(1,3)] by simp_all
    have cj: "1 \<le> y'" "1 \<le> m'" "m' \<le> 12" "d' \<le> days_in_month y' m'" "ymd2ord y' m' d' = j"
      using ord2ymd_correct [OF _ assms(4)] assms(1,2) by simp_all
    have "ymd2ord y' m' d' < ymd2ord y m d"
      using cj(1-4) ci(1-3) 2 by (rule ymd2ord_strict_mono)
    with ci(4) cj(5) assms(2) show False by simp
  qed
qed

lemma tuple_lt_asym: "tuple_lt xs ys \<Longrightarrow> \<not> tuple_lt ys xs"
  by (induction xs ys rule: tuple_lt.induct) auto

text \<open>Going back more days gives an earlier date, whatever the time of day.\<close>

lemma dt_sub_days_earlier:
  assumes "dt_sub_days now j = Inr a" and "dt_sub_days now i = Inr b" and "i < j"
  shows "dt_lt (a\<lparr>microsecond := u\<rparr>) (b\<lparr>microsecond := v\<rparr>)"
proof -
  define oa where "oa = int (toordinal now) - j"
  define ob where "ob = int (toordinal now) - i"
  have ra: "0 < oa" "oa \<le> int MAXORDINAL"
    using assms(1) unfolding dt_sub_days_def Let_def oa_def by (auto split: if_splits)
  have rb: "0 < ob" "ob \<le> int MAXORDINAL"
    using assms(2) unfolding dt_sub_days_def Let_def ob_def by (auto split: if_splits)
  obtain y m d where ya: "ord2ymd (nat oa) = (y, m, d)"
    by (cases "ord2ymd (nat oa)") auto
  obtain y' m' d' where yb: "ord2ymd (nat ob) = (y', m', d')"
    by (cases "ord2ymd (nat ob)") auto
  have a: "a = now\<lparr>year := y, month := m, day := d\<rparr>"
    using assms(1) ra ya unfolding dt_sub_days_def Let_def oa_def by simp
  have b: "b = now\<lparr>year := y', month := m', day := d'\<rparr>"
    using assms(2) rb yb unfolding dt_sub_days_def Let_def ob_def by simp
  have "1 \<le> nat oa" "nat oa < nat ob"
    using ra rb assms(3) unfolding oa_def ob_def by linarith+
  then have "tuple_lt [y, m, d] [y', m', d']"
    using ya yb by (rule ord2ymd_strict_mono)
  then show ?thesis
    unfolding a b dt_lt_def dt_fields_def by auto
qed

section \<open>Properties of the timestamps and of the log files\<close>

subsection \<open>Formatting and parsing a timestamp\<close>

lemma digit_char_props:
  assumes "k < 10"
  shows "CHR ''_'' \<noteq> digit_char k" and "digit_char k \<noteq> CHR '' ''"
    and "is_digit (digit_char k)" and "digit_val (digit_char k) = k"
proof -
  have "k = 0 \<or> k = 1 \<or> k = 2 \<or> k = 3 \<or> k = 4 \<or> k = 5 \<or> k = 6 \<or> k = 7 \<or> k = 8 \<or> k = 9"
    using assms by arith
  then show "CHR ''_'' \<noteq> digit_char k" and "digit_char k \<noteq> CHR '' ''"
    and "is_digit (digit_char k)" and "digit_val (digit_char k) = k"
    by (auto simp: digit_char_def is_digit_def digit_val_def)
qed

lemma split_acc_last: "c \<notin> set xs \<Longrightarrow> split_acc c acc xs = [acc @ xs]"
  by (induction xs arbitrary: acc) auto

lemma split_acc_part:
  "c \<notin> set xs \<Longrightarrow> split_acc c acc (xs @ c # rest) = (acc @ xs) # split_acc c [] rest"
  by (induction xs arbitrary: acc) auto

lemma pad2_no_sep: "CHR ''_'' \<notin> set (pad2 n)"
  by (simp add: pad2_def digit_char_props(1))

lemma pad4_no_sep: "CHR ''_'' \<notin> set (pad4 n)"
  by (simp add: pad4_def digit_char_props(1))

lemma split_on_strftime_full:
  "split_on (CHR ''_'') (strftime_full t) =
     [pad4 (year t), pad2 (month t), pad2 (day t), pad2 (hour t), pad2 (minute t),
      pad2 (second t)]"
proof -
  have "split_on (CHR ''_'') (strftime_full t) =
          split_acc (CHR ''_'') []
            (pad4 (year t) @ CHR ''_'' # pad2 (month t) @ CHR ''_'' # pad2 (day t) @ CHR ''_'' #
             pad2 (hour t) @ CHR ''_'' # pad2 (minute t) @ CHR ''_'' # pad2 (second t))"
    by (simp add: split_on_def strftime_full_def)
  then show ?thesis
    by (simp only: split_acc_part [OF pad4_no_sep] split_acc_part [OF pad2_no_sep]
          split_acc_last [OF pad2_no_sep] append_Nil)
qed

lemma decimal2: "n < 100 \<Longrightarrow> 10 * (n div 10 mod 10) + n mod 10 = (n::nat)"
  by simp

lemma decimal4:
  assumes "n < 10000"
  shows "10 * (10 * (10 * (n div 1000 mod 10) + n div 100 mod 10) + n div 10 mod 10) + n mod 10
           = (n::nat)"
proof -
  define q1 where "q1 = n div 10"
  define q2 where "q2 = q1 div 10"
  define q3 where "q3 = q2 div 10"
  have e2: "n div 100 = q2" and e3: "n div 1000 = q3"
    by (simp_all add: q1_def q2_def q3_def div_mult2_eq [symmetric])
  have "q3 < 10"
    using assms unfolding e3 [symmetric] by simp
  then have m3: "q3 mod 10 = q3"
    by simp
  have s1: "10 * q1 + n mod 10 = n"
    by (simp add: q1_def)
  have s2: "10 * q2 + q1 mod 10 = q1"
    by (simp add: q2_def)
  have s3: "10 * q3 + q2 mod 10 = q2"
    by (simp add: q3_def)
  show ?thesis
    unfolding e2 e3 m3 q1_def [symmetric] by (simp only: s3 s2 s1)
qed

lemma nat_of_digits_pad2: "n < 100 \<Longrightarrow> nat_of_digits (pad2 n) = n"
  using decimal2 [of n] by (simp add: nat_of_digits_def pad2_def digit_char_props(4))

lemma nat_of_digits_pad4:
  assumes "n < 10000"
  shows "nat_of_digits (pad4 n) = n"
proof -
  have "nat_of_digits (pad4 n) =
          10 * (10 * (10 * (n div 1000 mod 10) + n div 100 mod 10) + n div 10 mod 10) + n mod 10"
    by (simp add: nat_of_digits_def pad4_def digit_char_props(4))
  also have "\<dots> = n"
    by (rule decimal4 [OF assms])
  finally show ?thesis .
qed

lemma num_field_pad2:
  "n < 100 \<Longrightarrow> lo \<le> n \<Longrightarrow> n \<le> hi \<Longrightarrow> num_field 1 2 lo hi (pad2 n) = Some n"
  by (simp add: num_field_def nat_of_digits_pad2) (simp add: pad2_def digit_char_props(3))

lemma num_field_pad4: "n < 10000 \<Longrightarrow> num_field 4 4 0 9999 (pad4 n) = Some n"
  by (simp add: num_field_def nat_of_digits_pad4) (simp add: pad4_def digit_char_props(3))

lemma day_field_pad2:
  assumes "1 \<le> n" and "n \<le> 31"
  shows "day_field (pad2 n) = Some n"
proof -
  have "day_field (pad2 n) = num_field 1 2 1 31 (pad2 n)"
    by (simp add: day_field_def pad2_def digit_char_props(2))
  also have "\<dots> = Some n"
    using assms by (intro num_field_pad2) simp_all
  finally show ?thesis .
qed

lemma days_in_month_le_31: "1 \<le> m \<Longrightarrow> m \<le> 12 \<Longrightarrow> days_in_month y m \<le> 31"
proof -
  assume "1 \<le> m" "m \<le> 12"
  then have "m = 1 \<or> m = 2 \<or> m = 3 \<or> m = 4 \<or> m = 5 \<or> m = 6 \<or> m = 7 \<or> m = 8 \<or> m = 9
             \<or> m = 10 \<or> m = 11 \<or> m = 12"
    by (rule month_cases)
  then show ?thesis
    by (elim disjE) (simp_all add: days_in_month_def DAYS_IN_MONTH_def)
qed

text \<open>Parsing a formatted timestamp gives the time back, to the second.\<close>

lemma strptime_strftime:
  assumes "valid_datetime t"
  shows "strptime_full (strftime_full t) = Some (t\<lparr>microsecond := 0\<rparr>)"
proof -
  have v: "1 \<le> year t" "year t \<le> 9999" "1 \<le> month t" "month t \<le> 12" "1 \<le> day t"
    "day t \<le> days_in_month (year t) (month t)" "hour t < 24" "minute t < 60" "second t < 60"
    using assms by (simp_all add: valid_datetime_def)
  have d31: "day t \<le> 31"
    using v(6) days_in_month_le_31 [OF v(3,4), of "year t"] by linarith
  have fy: "num_field 4 4 0 9999 (pad4 (year t)) = Some (year t)"
    using v(2) by (intro num_field_pad4) simp
  have fm: "num_field 1 2 1 12 (pad2 (month t)) = Some (month t)"
    using v(3,4) by (intro num_field_pad2) simp_all
  have fd: "day_field (pad2 (day t)) = Some (day t)"
    using v(5) d31 by (rule day_field_pad2)
  have fH: "num_field 1 2 0 23 (pad2 (hour t)) = Some (hour t)"
    using v(7) by (intro num_field_pad2) simp_all
  have fM: "num_field 1 2 0 59 (pad2 (minute t)) = Some (minute t)"
    using v(8) by (intro num_field_pad2) simp_all
  have fS: "num_field 1 2 0 61 (pad2 (second t)) = Some (second t)"
    using v(9) by (intro num_field_pad2) simp_all
  define t0 where "t0 = \<lparr>year = year t, month = month t, day = day t, hour = hour t,
                           minute = minute t, second = second t, microsecond = 0\<rparr>"
  have t0: "t0 = t\<lparr>microsecond := 0\<rparr>"
    by (simp add: t0_def)
  have "valid_datetime t0"
    using assms by (simp add: valid_datetime_def t0_def)
  then have "datetime_new (year t) (month t) (day t) (hour t) (minute t) (second t) 0 = Some t0"
    by (simp add: datetime_new_def Let_def t0_def)
  moreover have "strptime_full (strftime_full t) =
                   datetime_new (year t) (month t) (day t) (hour t) (minute t) (second t) 0"
    unfolding strptime_full_def split_on_strftime_full
    by (simp only: list.case fy fm fd fH fM fS prod.case option.case)
  ultimately show ?thesis
    by (simp only: t0)
qed

lemma length_strftime_full: "length (strftime_full t) = 19"
  by (simp add: strftime_full_def pad2_def pad4_def)

lemma file_date_str_log_name:
  "length ts = 19 \<Longrightarrow> file_date_str (pre @ ts @ ''.log'') = ts"
  by (simp add: file_date_str_def)

text \<open>The definitions that a concrete run unfolds.\<close>

lemmas strptime_defs = strptime_full_def split_on_def num_field_def day_field_def
  nat_of_digits_def digit_val_def is_digit_def datetime_new_def valid_datetime_def
  days_in_month_def DAYS_IN_MONTH_def is_leap_def

lemmas calendar_defs = dt_sub_days_def toordinal_def ymd2ord_def days_before_year_def
  days_before_month_def DAYS_BEFORE_MONTH_def DAYS_IN_MONTH_def is_leap_def ord2ymd_def
  month_and_day_def MAXORDINAL_def Let_def

lemmas example_defs = logs_world_def logs_manager_def logs_folder_def jan5_noon_def
  default_days_to_keep_def

lemmas name_defs = matches_log_def suffix_Cons file_date_str_def has_old_timestamp_def
  dt_lt_def dt_fields_def

lemma with_parents_self: "p \<in> set (with_parents p)"
proof -
  have "p \<in> (\<lambda>k. p\<lparr>parts := take k (parts p)\<rparr>) ` set [0..<Suc (length (parts p))]"
    by (rule image_eqI [where x = "length (parts p)"]) simp_all
  then show ?thesis
    by (simp add: with_parents_def)
qed

lemma disk_getLogger: "dirs (getLogger n w) = dirs w" "entries (getLogger n w) = entries w"
  by (simp_all add: getLogger_def split: option.splits)

lemma disk_setLevel: "dirs (setLevel n lvl w) = dirs w" "entries (setLevel n lvl w) = entries w"
  by (simp_all add: setLevel_def)

lemma disk_addHandler: "dirs (addHandler n h w) = dirs w" "entries (addHandler n h w) = entries w"
  by (simp_all add: addHandler_def)

lemma touch_props:
  "dirs (touch folder name w) = dirs w"
  "set (entries (touch folder name w) folder) = insert name (set (entries w folder))"
  by (auto simp: touch_def)

lemma setup_save_logging_ok:
  assumes "logfolder self \<in> dirs w"
  shows "snd (setup_save_logging self now1 now2 w) = None"
    and "set (entries (fst (setup_save_logging self now1 now2 w)) (logfolder self)) =
           set (entries w (logfolder self))
           \<union> {''info_log'' @ get_full_time now1 @ ''.log'',
               ''debug_log'' @ get_full_time now2 @ ''.log''}"
proof -
  let ?info = "''info_log'' @ get_full_time now1 @ ''.log''"
  let ?debug = "''debug_log'' @ get_full_time now2 @ ''.log''"
  let ?w1 = "touch (logfolder self) ?info w"
  let ?w2 = "addHandler logger_name (FileHandler (logfolder self) ?info INFO) ?w1"
  let ?w3 = "touch (logfolder self) ?debug ?w2"
  let ?w4 = "addHandler logger_name (FileHandler (logfolder self) ?debug DEBUG) ?w3"
  have o1: "open_append (logfolder self) ?info w = Inr ?w1"
    using assms by (simp add: open_append_def)
  have "logfolder self \<in> dirs ?w2"
    using assms by (simp add: disk_addHandler touch_props)
  then have o2: "open_append (logfolder self) ?debug ?w2 = Inr ?w3"
    by (simp add: open_append_def)
  have run: "setup_save_logging self now1 now2 w = (?w4, None)"
    unfolding setup_save_logging_def Let_def o1 sum.case o2 ..
  show "snd (setup_save_logging self now1 now2 w) = None"
    unfolding run by simp
  show "set (entries (fst (setup_save_logging self now1 now2 w)) (logfolder self)) =
          set (entries w (logfolder self)) \<union> {?info, ?debug}"
    unfolding run by (simp add: disk_addHandler touch_props) blast
qed

lemma setup_logging_after_init:
  assumes "init base_save_path logfolderpath True w0 = (self, w)"
    and "setup_logging self stream_log_level now1 now2 w = (self', w', r)"
  shows "r = None"
    and "set (entries w' (logfolder self)) =
           set (entries w (logfolder self))
           \<union> {''info_log'' @ get_full_time now1 @ ''.log'',
               ''debug_log'' @ get_full_time now2 @ ''.log''}"
proof -
  have self: "save_log self" "logfolder self \<in> dirs w"
    using assms(1) with_parents_self by (auto simp: init_def Let_def mkdir_parents_def)
  let ?self1 = "self\<lparr>logger := Some logger_name\<rparr>"
  let ?w2 = "addHandler logger_name (StreamHandler stream_log_level)
               (setLevel logger_name DEBUG (getLogger logger_name w))"
  have d: "logfolder ?self1 \<in> dirs ?w2" and e: "entries ?w2 = entries w"
    using self(2) by (simp_all add: disk_addHandler disk_setLevel disk_getLogger)
  have run: "w' = fst (setup_save_logging ?self1 now1 now2 ?w2)"
    "r = snd (setup_save_logging ?self1 now1 now2 ?w2)"
    using assms(2) self(1) by (auto simp: setup_logging_def Let_def split: prod.splits)
  show "r = None"
    unfolding run using setup_save_logging_ok(1) [OF d] .
  have "set (entries w' (logfolder ?self1)) =
          set (entries ?w2 (logfolder ?self1))
          \<union> {''info_log'' @ get_full_time now1 @ ''.log'',
              ''debug_log'' @ get_full_time now2 @ ''.log''}"
    unfolding run using d by (rule setup_save_logging_ok(2))
  then show "set (entries w' (logfolder self)) =
          set (entries w (logfolder self))
          \<union> {''info_log'' @ get_full_time now1 @ ''.log'',
              ''debug_log'' @ get_full_time now2 @ ''.log''}"
    unfolding e by simp
qed

text \<open>
  Claim C7 does not hold as stated: the code puts no underscore between the prefix
  and the timestamp. Set up at 2024-01-05 12:00:07 UTC on an empty disk, the two files
  are \<^verbatim>\<open>info_log2024_01_05_12_00_07.log\<close> and \<^verbatim>\<open>debug_log2024_01_05_12_00_07.log\<close>, and
  no file of the folder is named \<^verbatim>\<open>info_log_2024_01_05_12_00_07.log\<close> or
  \<^verbatim>\<open>debug_log_2024_01_05_12_00_07.log\<close>.
\<close>

theorem setup_logging_file_names_counterexample:
  "entries (fst (snd (setup_logging (fst (init logs_folder \<lparr>absolute = False, parts = []\<rparr> True
                                             empty_world))
                        INFO jan5_noon jan5_noon
                        (snd (init logs_folder \<lparr>absolute = False, parts = []\<rparr> True empty_world)))))
     logs_folder
     = [''info_log2024_01_05_12_00_07.log'', ''debug_log2024_01_05_12_00_07.log'']
   \<and> get_full_time jan5_noon = ''2024_01_05_12_00_07''
   \<and> ''info_log_'' @ get_full_time jan5_noon @ ''.log''
       \<notin> set [''info_log2024_01_05_12_00_07.log'', ''debug_log2024_01_05_12_00_07.log'']
   \<and> ''debug_log_'' @ get_full_time jan5_noon @ ''.log''
       \<notin> set [''info_log2024_01_05_12_00_07.log'', ''debug_log2024_01_05_12_00_07.log'']"
proof -
  have t: "get_full_time jan5_noon = ''2024_01_05_12_00_07''"
    by (simp add: get_full_time_def strftime_full_def pad2_def pad4_def digit_char_def jan5_noon_def)
  have j: "joinpath logs_folder \<lparr>absolute = False, parts = []\<rparr> = logs_folder"
    by (simp add: joinpath_def)
  have "entries (fst (snd (setup_logging (fst (init logs_folder \<lparr>absolute = False, parts = []\<rparr>
                                                True empty_world))
                        INFO jan5_noon jan5_noon
                        (snd (init logs_folder \<lparr>absolute = False, parts = []\<rparr> True empty_world)))))
          logs_folder
        = [''info_log2024_01_05_12_00_07.log'', ''debug_log2024_01_05_12_00_07.log'']"
    by (simp add: init_def j Let_def setup_logging_def setup_save_logging_def open_append_def
          touch_def mkdir_parents_def with_parents_self disk_addHandler disk_setLevel
          disk_getLogger t empty_world_def)
  then show ?thesis
    unfolding t by simp
qed

text \<open>
  Claim C7, amended. On a manager built with saving enabled, \<^verbatim>\<open>setup_logging\<close> returns
  normally and the files it adds to the log folder are exactly
  \<^verbatim>\<open>info_log<timestamp>.log\<close> and \<^verbatim>\<open>debug_log<timestamp>.log\<close>, the timestamp following
  the prefix directly. Each timestamp is the UTC clock reading taken for that file, in
  the 19 characters of \<^verbatim>\<open>YYYY_MM_DD_HH_MM_SS\<close>: it is what the cleanup cuts out of the
  file name, and it parses back to the reading cut to the second.
\<close>

theorem setup_logging_creates_timestamped_files:
  assumes "valid_datetime now1" and "valid_datetime now2"
    and "1000 \<le> year now1" and "1000 \<le> year now2"
    and "init base_save_path logfolderpath True w0 = (self, w)"
    and "setup_logging self stream_log_level now1 now2 w = (self', w', r)"
  shows "r = None
       \<and> logfolder self = joinpath base_save_path logfolderpath
       \<and> set (entries w' (logfolder self)) =
           set (entries w (logfolder self))
           \<union> {''info_log'' @ get_full_time now1 @ ''.log'',
               ''debug_log'' @ get_full_time now2 @ ''.log''}
       \<and> get_full_time now1 =
           pad4 (year now1) @ ''_'' @ pad2 (month now1) @ ''_'' @ pad2 (day now1) @ ''_''
             @ pad2 (hour now1) @ ''_'' @ pad2 (minute now1) @ ''_'' @ pad2 (second now1)
       \<and> length (get_full_time now1) = 19 \<and> length (get_full_time now2) = 19
       \<and> file_date_str (''info_log'' @ get_full_time now1 @ ''.log'') = get_full_time now1
       \<and> file_date_str (''debug_log'' @ get_full_time now2 @ ''.log'') = get_full_time now2
       \<and> strptime_full (get_full_time now1) = Some (now1\<lparr>microsecond := 0\<rparr>)
       \<and> strptime_full (get_full_time now2) = Some (now2\<lparr>microsecond := 0\<rparr>)"
proof -
  have len: "length (get_full_time t) = 19" for t
    by (simp add: get_full_time_def length_strftime_full)
  have "file_date_str (''info_log'' @ get_full_time now1 @ ''.log'') = get_full_time now1"
    and "file_date_str (''debug_log'' @ get_full_time now2 @ ''.log'') = get_full_time now2"
    using len by (intro file_date_str_log_name; simp)+
  moreover have "strptime_full (get_full_time now1) = Some (now1\<lparr>microsecond := 0\<rparr>)"
    and "strptime_full (get_full_time now2) = Some (now2\<lparr>microsecond := 0\<rparr>)"
    using assms(1,2) by (simp_all add: get_full_time_def strptime_strftime)
  moreover have "logfolder self = joinpath base_save_path logfolderpath"
    using assms(5) by (auto simp: init_def Let_def)
  moreover have "get_full_time now1 =
           pad4 (year now1) @ ''_'' @ pad2 (month now1) @ ''_'' @ pad2 (day now1) @ ''_''
             @ pad2 (hour now1) @ ''_'' @ pad2 (minute now1) @ ''_'' @ pad2 (second now1)"
    by (simp add: get_full_time_def strftime_full_def)
  ultimately show ?thesis
    using setup_logging_after_init [OF assms(5,6)] len by blast
qed

theorem setup_logging_creates_timestamped_files_witness:
  "valid_datetime jan5_noon \<and> 1000 \<le> year jan5_noon
   \<and> snd (snd (setup_logging (fst (init logs_folder \<lparr>absolute = False, parts = []\<rparr> True
                                        empty_world))
                   INFO jan5_noon jan5_noon
                   (snd (init logs_folder \<lparr>absolute = False, parts = []\<rparr> True empty_world))))
       = None
   \<and> file_date_str (''info_log'' @ get_full_time jan5_noon @ ''.log'') = get_full_time jan5_noon
   \<and> strptime_full (get_full_time jan5_noon) = Some (jan5_noon\<lparr>microsecond := 0\<rparr>)"
proof -
  let ?i = "init logs_folder \<lparr>absolute = False, parts = []\<rparr> True empty_world"
  let ?s = "setup_logging (fst ?i) INFO jan5_noon jan5_noon (snd ?i)"
  have v: "valid_datetime jan5_noon"
    by (simp add: jan5_noon_def valid_datetime_def days_in_month_def DAYS_IN_MONTH_def)
  have y: "1000 \<le> year jan5_noon"
    by (simp add: jan5_noon_def)
  have i: "?i = (fst ?i, snd ?i)"
    by simp
  have s: "?s = (fst ?s, fst (snd ?s), snd (snd ?s))"
    by simp
  from setup_logging_creates_timestamped_files [OF v v y y i s] v y
  show ?thesis
    by blast
qed

section \<open>Properties of the cleanup\<close>

subsection \<open>The cleanup loop\<close>

lemma cleanup_loop_append:
  "cleanup_loop th (pre @ rest) es =
     (case cleanup_loop th pre es of
        (es1, None) \<Rightarrow> cleanup_loop th rest es1
      | (es1, Some e) \<Rightarrow> (es1, Some e))"
  by (induction pre arbitrary: es)
     (auto simp: os_remove_def split: option.splits sum.splits prod.splits)

text \<open>Whatever happens, the loop only takes away glob results with an old timestamp.\<close>

lemma cleanup_loop_frame:
  "cleanup_loop th names es = (es', r) \<Longrightarrow>
     set es' \<subseteq> set es \<and> (\<forall>n \<in> set es - set es'. n \<in> set names \<and> has_old_timestamp th n)"
proof (induction names arbitrary: es)
  case Nil
  then show ?case by simp
next
  case (Cons n names)
  show ?case
  proof (cases "strptime_full (file_date_str n)")
    case None
    with Cons.prems show ?thesis by simp
  next
    case (Some fd)
    show ?thesis
    proof (cases "dt_lt fd th \<and> n \<in> set es")
      case True
      with Some Cons.prems have "cleanup_loop th names (remove1 n es) = (es', r)"
        by (simp add: os_remove_def)
      from Cons.IH [OF this]
      have sub: "set es' \<subseteq> set (remove1 n es)"
        and old: "\<forall>m \<in> set (remove1 n es) - set es'. m \<in> set names \<and> has_old_timestamp th m"
        by simp_all
      have n_old: "has_old_timestamp th n"
        using True Some by (simp add: has_old_timestamp_def)
      have "set es' \<subseteq> set es"
        using sub set_remove1_subset by fast
      moreover have "m \<in> set (n # names) \<and> has_old_timestamp th m"
        if "m \<in> set es - set es'" for m
      proof (cases "m \<in> set (remove1 n es)")
        case True
        with that old show ?thesis by auto
      next
        case False
        with that have "m = n"
          by (metis DiffD1 in_set_remove1)
        with n_old show ?thesis by simp
      qed
      ultimately show ?thesis by blast
    next
      case False
      show ?thesis
      proof (cases "dt_lt fd th")
        case True
        with False Some Cons.prems have "es' = es"
          by (simp add: os_remove_def)
        then show ?thesis by simp
      next
        case nlt: False
        with Some Cons.prems have "cleanup_loop th names es = (es', r)"
          by simp
        from Cons.IH [OF this] show ?thesis by auto
      qed
    qed
  qed
qed

text \<open>When every glob result parses, the loop removes exactly the old ones.\<close>

lemma cleanup_loop_exact:
  assumes "distinct es" and "distinct names" and "set names \<subseteq> set es"
    and "\<forall>n \<in> set names. strptime_full (file_date_str n) \<noteq> None"
  shows "cleanup_loop th names es =
           (filter (\<lambda>n. \<not> (n \<in> set names \<and> has_old_timestamp th n)) es, None)"
  using assms
proof (induction names arbitrary: es)
  case Nil
  then show ?case by simp
next
  case (Cons n names)
  from Cons.prems obtain fd where fd: "strptime_full (file_date_str n) = Some fd"
    by auto
  have n_es: "n \<in> set es" and n_names: "n \<notin> set names"
    using Cons.prems by auto
  show ?case
  proof (cases "dt_lt fd th")
    case True
    have rm: "remove1 n es = filter (\<lambda>m. m \<noteq> n) es"
      using Cons.prems(1) by (simp add: distinct_remove1_removeAll removeAll_filter_not_eq) metis
    have "cleanup_loop th names (remove1 n es) =
            (filter (\<lambda>m. \<not> (m \<in> set names \<and> has_old_timestamp th m)) (remove1 n es), None)"
      using Cons.prems n_names by (intro Cons.IH) auto
    moreover have "filter (\<lambda>m. \<not> (m \<in> set names \<and> has_old_timestamp th m)) (remove1 n es) =
                   filter (\<lambda>m. \<not> (m \<in> set (n # names) \<and> has_old_timestamp th m)) es"
      using True fd unfolding rm filter_filter
      by (intro filter_cong) (auto simp: has_old_timestamp_def)
    ultimately show ?thesis
      using True fd n_es by (simp add: os_remove_def)
  next
    case False
    have "cleanup_loop th names es =
            (filter (\<lambda>m. \<not> (m \<in> set names \<and> has_old_timestamp th m)) es, None)"
      using Cons.prems by (intro Cons.IH) auto
    moreover have "filter (\<lambda>m. \<not> (m \<in> set names \<and> has_old_timestamp th m)) es =
                   filter (\<lambda>m. \<not> (m \<in> set (n # names) \<and> has_old_timestamp th m)) es"
      using False fd by (intro filter_cong) (auto simp: has_old_timestamp_def)
    ultimately show ?thesis
      using False fd by simp
  qed
qed

lemma cleanup_loop_stops_at_bad:
  assumes "distinct es" and "distinct (pre @ bad # post)" and "set (pre @ bad # post) \<subseteq> set es"
    and "\<forall>n \<in> set pre. strptime_full (file_date_str n) \<noteq> None"
    and "strptime_full (file_date_str bad) = None"
  shows "cleanup_loop th (pre @ bad # post) es =
           (filter (\<lambda>n. \<not> (n \<in> set pre \<and> has_old_timestamp th n)) es,
            Some (ValueError (file_date_str bad)))"
proof -
  have "cleanup_loop th pre es =
          (filter (\<lambda>n. \<not> (n \<in> set pre \<and> has_old_timestamp th n)) es, None)"
    using assms by (intro cleanup_loop_exact) auto
  then show ?thesis
    using assms(5) by (simp add: cleanup_loop_append)
qed

subsection \<open>Cleanup on the whole world\<close>

lemma glob_log_props:
  assumes "distinct (entries w folder)"
  shows "distinct (glob_log folder w)" and "set (glob_log folder w) \<subseteq> set (entries w folder)"
    and "\<forall>n \<in> set (glob_log folder w). matches_log n"
  using assms by (auto simp: glob_log_def)

lemma cleanup_old_logs_run:
  assumes "\<bar>days_to_keep\<bar> \<le> 999999999"
    and "dt_sub_days now days_to_keep = Inr threshold_date"
    and "cleanup_loop threshold_date (glob_log (logfolder self) w) (entries w (logfolder self))
           = (es, r)"
  shows "cleanup_old_logs self days_to_keep now w =
           (w\<lparr>entries := (entries w)(logfolder self := es)\<rparr>, r)"
  using assms by (simp add: cleanup_old_logs_def timedelta_days_def)

lemma cleanup_old_logs_exact:
  assumes "logfolder self \<in> dirs w"
    and "distinct (entries w (logfolder self))"
    and "\<forall>n \<in> set (entries w (logfolder self)).
           matches_log n \<longrightarrow> strptime_full (file_date_str n) \<noteq> None"
    and "\<bar>days_to_keep\<bar> \<le> 999999999"
    and "dt_sub_days now days_to_keep = Inr threshold_date"
  shows "cleanup_old_logs self days_to_keep now w =
           (w\<lparr>entries := (entries w)
                (logfolder self := without_old_logs threshold_date (entries w (logfolder self)))\<rparr>,
            None)"
proof -
  let ?es = "entries w (logfolder self)"
  let ?names = "glob_log (logfolder self) w"
  have names: "?names = filter matches_log ?es"
    using assms(1) by (simp add: glob_log_def)
  have "cleanup_loop threshold_date ?names ?es =
          (filter (\<lambda>n. \<not> (n \<in> set ?names \<and> has_old_timestamp threshold_date n)) ?es, None)"
    using assms(2,3) by (intro cleanup_loop_exact) (auto simp: names)
  moreover have "filter (\<lambda>n. \<not> (n \<in> set ?names \<and> has_old_timestamp threshold_date n)) ?es =
                 without_old_logs threshold_date ?es"
    unfolding without_old_logs_def names by (intro filter_cong) auto
  ultimately show ?thesis
    using assms(4,5) by (intro cleanup_old_logs_run) simp_all
qed

text \<open>
  Claim C5, amended. In an existing log folder whose \<^verbatim>\<open>*.log\<close> names all carry a
  timestamp that parses, \<^verbatim>\<open>cleanup_old_logs\<close> returns normally and removes exactly the
  \<^verbatim>\<open>*.log\<close> files whose timestamp is strictly before
  \<^verbatim>\<open>now - timedelta(days=days_to_keep)\<close>. With the default of three days, a file
  stamped with the time four days before \<open>now\<close> (to the second) is removed, and one
  stamped with the time two days before \<open>now\<close> is kept.
\<close>

theorem cleanup_removes_exactly_the_old_logs:
  assumes "logfolder self \<in> dirs w"
    and "distinct (entries w (logfolder self))"
    and "\<forall>n \<in> set (entries w (logfolder self)).
           matches_log n \<longrightarrow> strptime_full (file_date_str n) \<noteq> None"
    and "\<bar>days_to_keep\<bar> \<le> 999999999"
    and "dt_sub_days now days_to_keep = Inr threshold_date"
  shows "cleanup_old_logs self days_to_keep now w =
           (w\<lparr>entries := (entries w)
                (logfolder self := without_old_logs threshold_date (entries w (logfolder self)))\<rparr>,
            None)
       \<and> (\<forall>n \<in> set (entries w (logfolder self)).
            n \<in> set (entries (fst (cleanup_old_logs self days_to_keep now w)) (logfolder self))
              \<longleftrightarrow> \<not> (matches_log n \<and> has_old_timestamp threshold_date n))
       \<and> (days_to_keep = default_days_to_keep \<longrightarrow>
            (\<forall>n \<in> set (entries w (logfolder self)). \<forall>t4.
               matches_log n \<and> dt_sub_days now 4 = Inr t4
               \<and> strptime_full (file_date_str n) = Some (t4\<lparr>microsecond := 0\<rparr>) \<longrightarrow>
               n \<notin> set (entries (fst (cleanup_old_logs self days_to_keep now w)) (logfolder self)))
          \<and> (\<forall>n \<in> set (entries w (logfolder self)). \<forall>t2.
               dt_sub_days now 2 = Inr t2
               \<and> strptime_full (file_date_str n) = Some (t2\<lparr>microsecond := 0\<rparr>) \<longrightarrow>
               n \<in> set (entries (fst (cleanup_old_logs self days_to_keep now w)) (logfolder self))))"
proof -
  let ?es = "entries w (logfolder self)"
  have run: "cleanup_old_logs self days_to_keep now w =
               (w\<lparr>entries := (entries w)(logfolder self := without_old_logs threshold_date ?es)\<rparr>,
                None)"
    using assms by (rule cleanup_old_logs_exact)
  have after: "entries (fst (cleanup_old_logs self days_to_keep now w)) (logfolder self) =
                 without_old_logs threshold_date ?es"
    unfolding run by simp
  have exact: "n \<in> set (without_old_logs threshold_date ?es)
                 \<longleftrightarrow> \<not> (matches_log n \<and> has_old_timestamp threshold_date n)"
    if "n \<in> set ?es" for n
    using that by (simp add: without_old_logs_def)
  have four: "n \<notin> set (without_old_logs threshold_date ?es)"
    if "days_to_keep = default_days_to_keep" "matches_log n" "dt_sub_days now 4 = Inr t4"
      "strptime_full (file_date_str n) = Some (t4\<lparr>microsecond := 0\<rparr>)" for n t4
  proof -
    have "dt_sub_days now 3 = Inr threshold_date"
      using assms(5) that(1) by (simp add: default_days_to_keep_def)
    with that(3) have "dt_lt (t4\<lparr>microsecond := 0\<rparr>)
                         (threshold_date\<lparr>microsecond := microsecond threshold_date\<rparr>)"
      by (rule dt_sub_days_earlier) simp
    then have "dt_lt (t4\<lparr>microsecond := 0\<rparr>) threshold_date"
      by simp
    then have "has_old_timestamp threshold_date n"
      using that(4) by (simp add: has_old_timestamp_def)
    then show ?thesis
      using that(2) by (simp add: without_old_logs_def)
  qed
  have two: "n \<in> set (without_old_logs threshold_date ?es)"
    if "days_to_keep = default_days_to_keep" "n \<in> set ?es" "dt_sub_days now 2 = Inr t2"
      "strptime_full (file_date_str n) = Some (t2\<lparr>microsecond := 0\<rparr>)" for n t2
  proof -
    have "dt_sub_days now 3 = Inr threshold_date"
      using assms(5) that(1) by (simp add: default_days_to_keep_def)
    then have "dt_lt (threshold_date\<lparr>microsecond := microsecond threshold_date\<rparr>)
                 (t2\<lparr>microsecond := 0\<rparr>)"
      using that(3) by (rule dt_sub_days_earlier) simp
    then have "tuple_lt (dt_fields threshold_date) (dt_fields (t2\<lparr>microsecond := 0\<rparr>))"
      by (simp add: dt_lt_def)
    then have "\<not> dt_lt (t2\<lparr>microsecond := 0\<rparr>) threshold_date"
      unfolding dt_lt_def by (rule tuple_lt_asym)
    then have "\<not> has_old_timestamp threshold_date n"
      using that(4) by (simp add: has_old_timestamp_def)
    then show ?thesis
      using that(2) by (simp add: without_old_logs_def)
  qed
  show ?thesis
    unfolding after using run exact four two by blast
qed


theorem cleanup_removes_exactly_the_old_logs_witness:
  "cleanup_old_logs (logs_manager False) default_days_to_keep jan5_noon
     (logs_world [''info_log2024_01_01_12_00_07.log'', ''debug_log2024_01_03_12_00_07.log'',
                  ''notes.txt''])
   = ((logs_world [''info_log2024_01_01_12_00_07.log'', ''debug_log2024_01_03_12_00_07.log'',
                   ''notes.txt''])
        \<lparr>entries := (entries (logs_world [''info_log2024_01_01_12_00_07.log'',
                                            ''debug_log2024_01_03_12_00_07.log'', ''notes.txt'']))
           (logs_folder := [''debug_log2024_01_03_12_00_07.log'', ''notes.txt''])\<rparr>,
      None)
   \<and> dt_sub_days jan5_noon 4 = Inr (jan5_noon\<lparr>day := 1\<rparr>)
   \<and> strptime_full (file_date_str ''info_log2024_01_01_12_00_07.log'')
       = Some (jan5_noon\<lparr>day := 1, microsecond := 0\<rparr>)
   \<and> dt_sub_days jan5_noon 2 = Inr (jan5_noon\<lparr>day := 3\<rparr>)
   \<and> strptime_full (file_date_str ''debug_log2024_01_03_12_00_07.log'')
       = Some (jan5_noon\<lparr>day := 3, microsecond := 0\<rparr>)"
proof -
  let ?w = "logs_world [''info_log2024_01_01_12_00_07.log'', ''debug_log2024_01_03_12_00_07.log'',
                        ''notes.txt'']"
  have h1: "logfolder (logs_manager False) \<in> dirs ?w"
    by (simp add: example_defs)
  have h2: "distinct (entries ?w (logfolder (logs_manager False)))"
    by (simp add: example_defs)
  have h3: "\<forall>n \<in> set (entries ?w (logfolder (logs_manager False))).
              matches_log n \<longrightarrow> strptime_full (file_date_str n) \<noteq> None"
    by (simp add: example_defs name_defs strptime_defs)
  have h4: "\<bar>default_days_to_keep\<bar> \<le> 999999999"
    by (simp add: default_days_to_keep_def)
  have h5: "dt_sub_days jan5_noon default_days_to_keep = Inr (jan5_noon\<lparr>day := 2\<rparr>)"
    by (simp add: example_defs calendar_defs)
  have "cleanup_old_logs (logs_manager False) default_days_to_keep jan5_noon ?w =
          (?w\<lparr>entries := (entries ?w)
               (logfolder (logs_manager False) :=
                  without_old_logs (jan5_noon\<lparr>day := 2\<rparr>)
                    (entries ?w (logfolder (logs_manager False))))\<rparr>, None)"
    using cleanup_removes_exactly_the_old_logs [OF h1 h2 h3 h4 h5] by (rule conjunct1)
  moreover have "without_old_logs (jan5_noon\<lparr>day := 2\<rparr>)
                   (entries ?w (logfolder (logs_manager False)))
                 = [''debug_log2024_01_03_12_00_07.log'', ''notes.txt'']"
    by (simp add: without_old_logs_def example_defs name_defs strptime_defs)
  moreover have "logfolder (logs_manager False) = logs_folder"
    by (simp add: logs_manager_def)
  moreover have "dt_sub_days jan5_noon 4 = Inr (jan5_noon\<lparr>day := 1\<rparr>)"
    by (simp add: example_defs calendar_defs)
  moreover have "strptime_full (file_date_str ''info_log2024_01_01_12_00_07.log'')
                   = Some (jan5_noon\<lparr>day := 1, microsecond := 0\<rparr>)"
    by (simp add: example_defs name_defs strptime_defs)
  moreover have "dt_sub_days jan5_noon 2 = Inr (jan5_noon\<lparr>day := 3\<rparr>)"
    by (simp add: example_defs calendar_defs)
  moreover have "strptime_full (file_date_str ''debug_log2024_01_03_12_00_07.log'')
                   = Some (jan5_noon\<lparr>day := 3, microsecond := 0\<rparr>)"
    by (simp add: example_defs name_defs strptime_defs)
  ultimately show ?thesis
    by (simp only: simp_thms)
qed

text \<open>
  Claim C5 does not hold of every folder. Here the folder holds \<^verbatim>\<open>notes.log\<close> and,
  after it, a log stamped exactly four days before the clock reading. With the default
  retention that log is older than the threshold, yet it is still on disk after the
  call: the loop ended at \<^verbatim>\<open>notes.log\<close>.
\<close>

theorem cleanup_keeps_old_log_behind_bad_name_counterexample:
  "matches_log ''info_log2024_01_01_12_00_07.log''
   \<and> dt_sub_days jan5_noon 4 = Inr (jan5_noon\<lparr>day := 1\<rparr>)
   \<and> strptime_full (file_date_str ''info_log2024_01_01_12_00_07.log'')
       = Some (jan5_noon\<lparr>day := 1, microsecond := 0\<rparr>)
   \<and> dt_sub_days jan5_noon default_days_to_keep = Inr (jan5_noon\<lparr>day := 2\<rparr>)
   \<and> has_old_timestamp (jan5_noon\<lparr>day := 2\<rparr>) ''info_log2024_01_01_12_00_07.log''
   \<and> ''info_log2024_01_01_12_00_07.log''
       \<in> set (entries (fst (cleanup_old_logs (logs_manager True) default_days_to_keep jan5_noon
                 (logs_world [''notes.log'', ''info_log2024_01_01_12_00_07.log''])))
               logs_folder)"
proof -
  have th: "dt_sub_days jan5_noon 3 = Inr (jan5_noon\<lparr>day := 2\<rparr>)"
    by (simp add: example_defs calendar_defs)
  have "matches_log ''info_log2024_01_01_12_00_07.log''"
    by (simp add: name_defs)
  moreover have "dt_sub_days jan5_noon 4 = Inr (jan5_noon\<lparr>day := 1\<rparr>)"
    by (simp add: example_defs calendar_defs)
  moreover have "strptime_full (file_date_str ''info_log2024_01_01_12_00_07.log'')
                   = Some (jan5_noon\<lparr>day := 1, microsecond := 0\<rparr>)"
    by (simp add: example_defs name_defs strptime_defs)
  moreover have "has_old_timestamp (jan5_noon\<lparr>day := 2\<rparr>) ''info_log2024_01_01_12_00_07.log''"
    by (simp add: example_defs name_defs strptime_defs)
  moreover have "entries (fst (cleanup_old_logs (logs_manager True) 3 jan5_noon
                   (logs_world [''notes.log'', ''info_log2024_01_01_12_00_07.log''])))
                   logs_folder
                 = [''notes.log'', ''info_log2024_01_01_12_00_07.log'']"
    by (simp add: cleanup_old_logs_def timedelta_days_def th glob_log_def logs_world_def
          logs_manager_def matches_log_def suffix_Cons file_date_str_def strptime_defs)
  ultimately show ?thesis
    using th by (simp only: default_days_to_keep_def) simp
qed

text \<open>
  Claim C8 does not hold. A \<^verbatim>\<open>*.log\<close> file whose name carries no timestamp makes
  \<^verbatim>\<open>cleanup_old_logs\<close> raise \<^verbatim>\<open>ValueError\<close>, and the files after it are not looked
  at: here a log from the year 2000 stays on disk.
\<close>

theorem cleanup_skips_nonconforming_counterexample:
  "snd (cleanup_old_logs (logs_manager True) default_days_to_keep jan5_noon
          (logs_world [''notes.log'', ''info_log2000_01_01_00_00_00.log'']))
     = Some (ValueError ''notes'')
   \<and> entries (fst (cleanup_old_logs (logs_manager True) default_days_to_keep jan5_noon
          (logs_world [''notes.log'', ''info_log2000_01_01_00_00_00.log'']))) logs_folder
     = [''notes.log'', ''info_log2000_01_01_00_00_00.log'']
   \<and> matches_log ''info_log2000_01_01_00_00_00.log''
   \<and> has_old_timestamp (jan5_noon\<lparr>day := 2\<rparr>) ''info_log2000_01_01_00_00_00.log''
   \<and> dt_sub_days jan5_noon default_days_to_keep = Inr (jan5_noon\<lparr>day := 2\<rparr>)"
proof -
  have h5: "dt_sub_days jan5_noon 3 = Inr (jan5_noon\<lparr>day := 2\<rparr>)"
    by (simp add: example_defs calendar_defs)
  have "snd (cleanup_old_logs (logs_manager True) 3 jan5_noon
          (logs_world [''notes.log'', ''info_log2000_01_01_00_00_00.log'']))
        = Some (ValueError ''notes'')"
    by (simp add: cleanup_old_logs_def timedelta_days_def h5 glob_log_def logs_world_def
          logs_manager_def matches_log_def suffix_Cons file_date_str_def strptime_defs)
  moreover have "entries (fst (cleanup_old_logs (logs_manager True) 3 jan5_noon
          (logs_world [''notes.log'', ''info_log2000_01_01_00_00_00.log'']))) logs_folder
        = [''notes.log'', ''info_log2000_01_01_00_00_00.log'']"
    by (simp add: cleanup_old_logs_def timedelta_days_def h5 glob_log_def logs_world_def
          logs_manager_def matches_log_def suffix_Cons file_date_str_def strptime_defs)
  moreover have "matches_log ''info_log2000_01_01_00_00_00.log''"
    by (simp add: name_defs)
  moreover have "has_old_timestamp (jan5_noon\<lparr>day := 2\<rparr>) ''info_log2000_01_01_00_00_00.log''"
    by (simp add: example_defs name_defs strptime_defs)
  ultimately show ?thesis
    using h5 by (simp only: default_days_to_keep_def simp_thms)
qed

text \<open>
  Claim C8, amended. When the glob reaches a \<^verbatim>\<open>*.log\<close> name whose timestamp part does
  not parse, \<^verbatim>\<open>cleanup_old_logs\<close> raises \<^verbatim>\<open>ValueError\<close> there. The files that came
  before it in the glob's order have been handled (the old ones among them are
  removed); the non-conforming file and every file after it are left in place.
\<close>

theorem cleanup_raises_at_nonconforming_name:
  assumes "logfolder self \<in> dirs w"
    and "distinct (entries w (logfolder self))"
    and "glob_log (logfolder self) w = pre @ bad # post"
    and "\<forall>n \<in> set pre. strptime_full (file_date_str n) \<noteq> None"
    and "strptime_full (file_date_str bad) = None"
    and "\<bar>days_to_keep\<bar> \<le> 999999999"
    and "dt_sub_days now days_to_keep = Inr threshold_date"
  shows "cleanup_old_logs self days_to_keep now w =
           (w\<lparr>entries := (entries w)
                (logfolder self :=
                   filter (\<lambda>n. \<not> (n \<in> set pre \<and> has_old_timestamp threshold_date n))
                     (entries w (logfolder self)))\<rparr>,
            Some (ValueError (file_date_str bad)))
       \<and> bad \<in> set (entries (fst (cleanup_old_logs self days_to_keep now w)) (logfolder self))
       \<and> set post
            \<subseteq> set (entries (fst (cleanup_old_logs self days_to_keep now w)) (logfolder self))"
proof -
  let ?es = "entries w (logfolder self)"
  let ?rest = "filter (\<lambda>n. \<not> (n \<in> set pre \<and> has_old_timestamp threshold_date n)) ?es"
  have d: "distinct (pre @ bad # post)" and s: "set (pre @ bad # post) \<subseteq> set ?es"
    using glob_log_props(1,2) [OF assms(2)] unfolding assms(3) by simp_all
  have "cleanup_loop threshold_date (glob_log (logfolder self) w) ?es =
          (?rest, Some (ValueError (file_date_str bad)))"
    unfolding assms(3) using assms(2) d s assms(4,5) by (rule cleanup_loop_stops_at_bad)
  then have run: "cleanup_old_logs self days_to_keep now w =
                    (w\<lparr>entries := (entries w)(logfolder self := ?rest)\<rparr>,
                     Some (ValueError (file_date_str bad)))"
    using assms(6,7) by (intro cleanup_old_logs_run) simp_all
  have "bad \<in> set ?rest" and "set post \<subseteq> set ?rest"
    using d s by auto
  then show ?thesis
    unfolding run by simp
qed

theorem cleanup_raises_at_nonconforming_name_witness:
  "cleanup_old_logs (logs_manager True) default_days_to_keep jan5_noon
     (logs_world [''info_log2000_01_01_00_00_00.log'', ''notes.log'',
                  ''debug_log2000_01_01_00_00_00.log''])
   = ((logs_world [''info_log2000_01_01_00_00_00.log'', ''notes.log'',
                   ''debug_log2000_01_01_00_00_00.log''])
        \<lparr>entries := (entries (logs_world [''info_log2000_01_01_00_00_00.log'', ''notes.log'',
                                            ''debug_log2000_01_01_00_00_00.log'']))
           (logs_folder := [''notes.log'', ''debug_log2000_01_01_00_00_00.log''])\<rparr>,
      Some (ValueError ''notes''))"
proof -
  let ?w = "logs_world [''info_log2000_01_01_00_00_00.log'', ''notes.log'',
                        ''debug_log2000_01_01_00_00_00.log'']"
  have h1: "logfolder (logs_manager True) \<in> dirs ?w"
    by (simp add: example_defs)
  have h2: "distinct (entries ?w (logfolder (logs_manager True)))"
    by (simp add: example_defs)
  have h3: "glob_log (logfolder (logs_manager True)) ?w =
              [''info_log2000_01_01_00_00_00.log''] @ ''notes.log''
                # [''debug_log2000_01_01_00_00_00.log'']"
    by (simp add: glob_log_def example_defs name_defs)
  have h4: "\<forall>n \<in> set [''info_log2000_01_01_00_00_00.log''].
              strptime_full (file_date_str n) \<noteq> None"
    by (simp add: name_defs strptime_defs)
  have h5: "strptime_full (file_date_str ''notes.log'') = None"
    by (simp add: name_defs strptime_defs)
  have h6: "\<bar>default_days_to_keep\<bar> \<le> 999999999"
    by (simp add: default_days_to_keep_def)
  have h7: "dt_sub_days jan5_noon default_days_to_keep = Inr (jan5_noon\<lparr>day := 2\<rparr>)"
    by (simp add: example_defs calendar_defs)
  have "cleanup_old_logs (logs_manager True) default_days_to_keep jan5_noon ?w =
          (?w\<lparr>entries := (entries ?w)
               (logfolder (logs_manager True) :=
                  filter (\<lambda>n. \<not> (n \<in> set [''info_log2000_01_01_00_00_00.log'']
                                  \<and> has_old_timestamp (jan5_noon\<lparr>day := 2\<rparr>) n))
                    (entries ?w (logfolder (logs_manager True))))\<rparr>,
           Some (ValueError (file_date_str ''notes.log'')))"
    using cleanup_raises_at_nonconforming_name [OF h1 h2 h3 h4 h5 h6 h7] by (rule conjunct1)
  moreover have "filter (\<lambda>n. \<not> (n \<in> set [''info_log2000_01_01_00_00_00.log'']
                                  \<and> has_old_timestamp (jan5_noon\<lparr>day := 2\<rparr>) n))
                    (entries ?w (logfolder (logs_manager True)))
                 = [''notes.log'', ''debug_log2000_01_01_00_00_00.log'']"
    by (simp add: example_defs name_defs strptime_defs)
  moreover have "logfolder (logs_manager True) = logs_folder"
    by (simp add: logs_manager_def)
  moreover have "file_date_str ''notes.log'' = ''notes''"
    by (simp add: file_date_str_def)
  ultimately show ?thesis
    by (simp only:)
qed

lemma cleanup_old_logs_cong:
  assumes "logfolder a = logfolder b"
  shows "cleanup_old_logs a days_to_keep now w = cleanup_old_logs b days_to_keep now w"
  unfolding cleanup_old_logs_def assms ..

lemma cleanup_old_logs_effect:
  "dirs (fst (cleanup_old_logs self days_to_keep now w)) = dirs w
   \<and> loggers (fst (cleanup_old_logs self days_to_keep now w)) = loggers w
   \<and> (\<forall>q. q \<noteq> logfolder self \<longrightarrow>
          entries (fst (cleanup_old_logs self days_to_keep now w)) q = entries w q)
   \<and> set (entries (fst (cleanup_old_logs self days_to_keep now w)) (logfolder self))
        \<subseteq> set (entries w (logfolder self))
   \<and> (\<forall>n \<in> set (entries w (logfolder self)).
          n \<notin> set (entries (fst (cleanup_old_logs self days_to_keep now w)) (logfolder self)) \<longrightarrow>
          matches_log n
          \<and> (\<exists>threshold_date. dt_sub_days now days_to_keep = Inr threshold_date
                \<and> has_old_timestamp threshold_date n))"
proof (cases "\<bar>days_to_keep\<bar> \<le> 999999999")
  case False
  then have "cleanup_old_logs self days_to_keep now w =
               (w, Some (OverflowError ''days out of range for timedelta''))"
    by (simp add: cleanup_old_logs_def timedelta_days_def)
  then show ?thesis by simp
next
  case True
  show ?thesis
  proof (cases "dt_sub_days now days_to_keep")
    case (Inl e)
    then have "cleanup_old_logs self days_to_keep now w = (w, Some e)"
      using True by (simp add: cleanup_old_logs_def timedelta_days_def)
    then show ?thesis by simp
  next
    case (Inr th)
    let ?es = "entries w (logfolder self)"
    obtain es' r where loop:
      "cleanup_loop th (glob_log (logfolder self) w) ?es = (es', r)"
      by (cases "cleanup_loop th (glob_log (logfolder self) w) ?es") auto
    have run: "cleanup_old_logs self days_to_keep now w =
                 (w\<lparr>entries := (entries w)(logfolder self := es')\<rparr>, r)"
      using True Inr loop by (rule cleanup_old_logs_run)
    from cleanup_loop_frame [OF loop]
    have sub: "set es' \<subseteq> set ?es"
      and gone: "\<forall>n \<in> set ?es - set es'.
                   n \<in> set (glob_log (logfolder self) w) \<and> has_old_timestamp th n"
      by simp_all
    have "matches_log n \<and> has_old_timestamp th n" if "n \<in> set ?es" "n \<notin> set es'" for n
      using gone that by (auto simp: glob_log_def split: if_splits)
    then show ?thesis
      unfolding run using sub Inr by auto
  qed
qed

text \<open>
  Claim C10. Whatever the folder holds and however the call ends, \<^verbatim>\<open>cleanup_old_logs\<close>
  touches nothing but the names of the log folder, creates no file, and a file that is
  gone afterwards had a name ending in \<^verbatim>\<open>.log\<close> with a timestamp strictly before the
  threshold. So every file not ending in \<^verbatim>\<open>.log\<close>, and every \<^verbatim>\<open>.log\<close> file whose
  timestamp is at or after the threshold, is still there.
\<close>

theorem cleanup_only_removes_old_log_files:
  "dirs (fst (cleanup_old_logs self days_to_keep now w)) = dirs w
   \<and> loggers (fst (cleanup_old_logs self days_to_keep now w)) = loggers w
   \<and> (\<forall>q. q \<noteq> logfolder self \<longrightarrow>
          entries (fst (cleanup_old_logs self days_to_keep now w)) q = entries w q)
   \<and> set (entries (fst (cleanup_old_logs self days_to_keep now w)) (logfolder self))
        \<subseteq> set (entries w (logfolder self))
   \<and> (\<forall>n \<in> set (entries w (logfolder self)).
          n \<notin> set (entries (fst (cleanup_old_logs self days_to_keep now w)) (logfolder self)) \<longrightarrow>
          matches_log n
          \<and> (\<exists>threshold_date. dt_sub_days now days_to_keep = Inr threshold_date
                \<and> has_old_timestamp threshold_date n))"
  by (rule cleanup_old_logs_effect)

theorem cleanup_only_removes_old_log_files_witness:
  "''notes.txt''
     \<in> set (entries (fst (cleanup_old_logs (logs_manager True) default_days_to_keep jan5_noon
               (logs_world [''info_log2000_01_01_00_00_00.log'', ''notes.txt'',
                            ''debug_log2024_01_03_12_00_07.log''])))
             logs_folder)
   \<and> ''debug_log2024_01_03_12_00_07.log''
     \<in> set (entries (fst (cleanup_old_logs (logs_manager True) default_days_to_keep jan5_noon
               (logs_world [''info_log2000_01_01_00_00_00.log'', ''notes.txt'',
                            ''debug_log2024_01_03_12_00_07.log''])))
             logs_folder)"
proof -
  let ?w = "logs_world [''info_log2000_01_01_00_00_00.log'', ''notes.txt'',
                        ''debug_log2024_01_03_12_00_07.log'']"
  let ?after = "entries (fst (cleanup_old_logs (logs_manager True) default_days_to_keep
                                jan5_noon ?w)) (logfolder (logs_manager True))"
  have gone: "\<forall>n \<in> set (entries ?w (logfolder (logs_manager True))).
                n \<notin> set ?after \<longrightarrow>
                matches_log n
                \<and> (\<exists>th. dt_sub_days jan5_noon default_days_to_keep = Inr th
                      \<and> has_old_timestamp th n)"
    using cleanup_only_removes_old_log_files
            [of "logs_manager True" default_days_to_keep jan5_noon ?w]
    by blast
  have f: "logfolder (logs_manager True) = logs_folder"
    by (simp add: logs_manager_def)
  have th: "dt_sub_days jan5_noon default_days_to_keep = Inr (jan5_noon\<lparr>day := 2\<rparr>)"
    by (simp add: example_defs calendar_defs)
  have "''notes.txt'' \<in> set (entries ?w logs_folder)"
    and "''debug_log2024_01_03_12_00_07.log'' \<in> set (entries ?w logs_folder)"
    by (simp_all add: logs_world_def)
  moreover have "\<not> matches_log ''notes.txt''"
    by (simp add: name_defs)
  moreover have "\<not> has_old_timestamp (jan5_noon\<lparr>day := 2\<rparr>) ''debug_log2024_01_03_12_00_07.log''"
    by (simp add: example_defs name_defs strptime_defs)
  ultimately show ?thesis
    using gone unfolding f th by auto
qed

text \<open>
  Claim C9. After construction the \<open>logfolder\<close> field is the base path joined with
  the log-folder path, whatever the save flag. Only the creation of the folder on disk
  depends on the flag. \<^verbatim>\<open>cleanup_old_logs\<close> therefore works on that folder for a manager
  built with saving disabled just as for one built with saving enabled, and changes
  the names of no other folder.
\<close>

theorem init_sets_logfolder_whatever_the_flag:
  "logfolder (fst (init base_save_path logfolderpath save w0))
     = joinpath base_save_path logfolderpath
   \<and> save_log (fst (init base_save_path logfolderpath save w0)) = save
   \<and> snd (init base_save_path logfolderpath False w0) = w0
   \<and> snd (init base_save_path logfolderpath True w0)
       = w0\<lparr>dirs := dirs w0 \<union> set (with_parents (joinpath base_save_path logfolderpath))\<rparr>
   \<and> cleanup_old_logs (fst (init base_save_path logfolderpath False w0)) days_to_keep now w
       = cleanup_old_logs (fst (init base_save_path logfolderpath True w0)) days_to_keep now w
   \<and> (\<forall>q. q \<noteq> joinpath base_save_path logfolderpath \<longrightarrow>
          entries (fst (cleanup_old_logs (fst (init base_save_path logfolderpath save w0))
                          days_to_keep now w)) q = entries w q)"
proof -
  have l: "logfolder (fst (init base_save_path logfolderpath b w0))
             = joinpath base_save_path logfolderpath" for b
    by (simp add: init_def Let_def)
  have "cleanup_old_logs (fst (init base_save_path logfolderpath False w0)) days_to_keep now w
          = cleanup_old_logs (fst (init base_save_path logfolderpath True w0)) days_to_keep now w"
    by (rule cleanup_old_logs_cong) (simp add: l)
  moreover have "\<forall>q. q \<noteq> joinpath base_save_path logfolderpath \<longrightarrow>
          entries (fst (cleanup_old_logs (fst (init base_save_path logfolderpath save w0))
                          days_to_keep now w)) q = entries w q"
    using cleanup_old_logs_effect
            [of "fst (init base_save_path logfolderpath save w0)" days_to_keep now w]
    unfolding l by blast
  moreover have "save_log (fst (init base_save_path logfolderpath save w0)) = save"
    and "snd (init base_save_path logfolderpath False w0) = w0"
    and "snd (init base_save_path logfolderpath True w0)
           = w0\<lparr>dirs := dirs w0 \<union> set (with_parents (joinpath base_save_path logfolderpath))\<rparr>"
    by (simp_all add: init_def Let_def mkdir_parents_def)
  ultimately show ?thesis
    using l by blast
qed

theorem init_sets_logfolder_whatever_the_flag_witness:
  "logfolder (fst (init \<lparr>absolute = False, parts = [''out'']\<rparr>
                        \<lparr>absolute = False, parts = [''logs'']\<rparr> False empty_world)) = logs_folder
   \<and> entries (fst (cleanup_old_logs
                     (fst (init \<lparr>absolute = False, parts = [''out'']\<rparr>
                             \<lparr>absolute = False, parts = [''logs'']\<rparr> False empty_world))
                     default_days_to_keep jan5_noon
                     (logs_world [''info_log2000_01_01_00_00_00.log'', ''notes.txt''])))
       logs_folder
     = [''notes.txt'']"
proof -
  let ?base = "\<lparr>absolute = False, parts = [''out'']\<rparr>"
  let ?sub = "\<lparr>absolute = False, parts = [''logs'']\<rparr>"
  let ?w = "logs_world [''info_log2000_01_01_00_00_00.log'', ''notes.txt'']"
  have j: "joinpath ?base ?sub = logs_folder"
    by (simp add: joinpath_def logs_folder_def)
  have l: "logfolder (fst (init ?base ?sub False empty_world)) = logs_folder"
    using init_sets_logfolder_whatever_the_flag [of ?base ?sub False empty_world]
    unfolding j by (rule conjunct1)
  have "cleanup_old_logs (fst (init ?base ?sub False empty_world)) default_days_to_keep
          jan5_noon ?w
        = cleanup_old_logs (logs_manager False) default_days_to_keep jan5_noon ?w"
    by (rule cleanup_old_logs_cong) (simp add: l logs_manager_def)
  moreover have "entries (fst (cleanup_old_logs (logs_manager False) default_days_to_keep
                                 jan5_noon ?w)) logs_folder = [''notes.txt'']"
    by (simp add: cleanup_old_logs_def timedelta_days_def glob_log_def os_remove_def
          example_defs calendar_defs name_defs strptime_defs)
  ultimately have "entries (fst (cleanup_old_logs (fst (init ?base ?sub False empty_world))
                        default_days_to_keep jan5_noon ?w)) logs_folder = [''notes.txt'']"
    by simp
  with l show ?thesis
    by simp
qed


end
